theory Spec2Isabelle
  imports Main "HOL-Library.Sublist"
begin

section \<open>Data model of the email validator\<close>

text \<open>
  The embedding follows \<^verbatim>\<open>lib/email-validation.ts\<close> (class \<^verbatim>\<open>EmailValidator\<close>) and
  the constant \<^verbatim>\<open>EMAIL_CONSTRAINTS.MAX_WIDTH\<close> of \<^verbatim>\<open>lib/tambo.ts\<close>.

  A JavaScript string is modelled by \<^typ>\<open>string\<close>: the list of its code units, for
  inputs whose code units are below 256. The counts of findings, the indices of images
  and the score are integers far below \<open>2 ^ 53\<close>, where the IEEE double of the source is
  exact; they are modelled by \<^typ>\<open>nat\<close> and \<^typ>\<open>int\<close>. The widths that
  \<^verbatim>\<open>parseInt\<close> reads from the input are not bounded; they are modelled as doubles.
\<close>

text \<open>The exception the validator can raise.\<close>

datatype error = RangeError

text \<open>
  The numbers of the width check: \<^verbatim>\<open>parseInt\<close> of a run of decimal digits is a
  non-negative integral double or \<^verbatim>\<open>Infinity\<close>. \<open>Finite n\<close> stands for the double whose
  value is \<open>n\<close>.
\<close>

datatype number = Finite nat | Infinity

datatype severity = Error | Warning

datatype category = Structure | Css | Images | Compatibility | Accessibility

record ValidationError =
  type :: severity
  category :: category
  message :: string
  suggestion :: "string option"
  line :: "nat option"
  column :: "nat option"

text \<open>
  \<^verbatim>\<open>ValidationWarning\<close> is the same interface with \<^verbatim>\<open>type: 'warning'\<close>; TypeScript
  erases the refinement, so both arrays hold values of one record type.
\<close>

type_synonym ValidationWarning = ValidationError

record ValidationResult =
  isValid :: bool
  errors :: "ValidationError list"
  warnings :: "ValidationWarning list"
  score :: int

definition MAX_WIDTH :: nat where
  "MAX_WIDTH = 600"

section \<open>String primitives\<close>

text \<open>\<^verbatim>\<open>s.includes(p)\<close>: \<open>p\<close> occurs in \<open>s\<close> as a contiguous run of code units.\<close>

definition str_includes :: "string \<Rightarrow> string \<Rightarrow> bool" where
  "str_includes s p = sublist p s"

text \<open>\<^verbatim>\<open>array.push(x)\<close>, with the array passed as a value and returned.\<close>

definition push :: "'a list \<Rightarrow> 'a \<Rightarrow> 'a list" where
  "push xs x = xs @ [x]"

definition is_ascii_upper :: "char \<Rightarrow> bool" where
  "is_ascii_upper c = (65 \<le> (of_char c :: nat) \<and> (of_char c :: nat) \<le> 90)"

definition is_latin1_upper :: "char \<Rightarrow> bool" where
  "is_latin1_upper c =
     (192 \<le> (of_char c :: nat) \<and> (of_char c :: nat) \<le> 222 \<and> (of_char c :: nat) \<noteq> 215)"

text \<open>Adding 32 to the code of an upper-case letter is setting bit 5.\<close>

definition set_bit5 :: "char \<Rightarrow> char" where
  "set_bit5 c = (case c of Char b0 b1 b2 b3 b4 b5 b6 b7 \<Rightarrow> Char b0 b1 b2 b3 b4 True b6 b7)"

text \<open>
  \<^verbatim>\<open>String.prototype.toLowerCase\<close> on code units below 256: \<open>A\<close>-\<open>Z\<close> and the
  Latin-1 capitals \<open>0xC0\<close>-\<open>0xDE\<close> (without the multiplication sign \<open>0xD7\<close>) move
  up by 32, every other code unit stays.
\<close>

definition lower_char :: "char \<Rightarrow> char" where
  "lower_char c = (if is_ascii_upper c \<or> is_latin1_upper c then set_bit5 c else c)"

definition toLowerCase :: "string \<Rightarrow> string" where
  "toLowerCase s = map lower_char s"

text \<open>
  Case folding of a regular expression with flag \<^verbatim>\<open>i\<close> (and without \<^verbatim>\<open>u\<close>)
  against an ASCII pattern character: only the ASCII letter of the other case is
  identified with it.
\<close>

definition ascii_lower :: "char \<Rightarrow> char" where
  "ascii_lower c = (if is_ascii_upper c then set_bit5 c else c)"

text \<open>The class \<^verbatim>\<open>\s\<close> on code units below 256, and the class \<^verbatim>\<open>\d\<close>.\<close>

definition is_space :: "char \<Rightarrow> bool" where
  "is_space c = ((of_char c :: nat) \<in> {9, 10, 11, 12, 13, 32, 160})"

definition is_digit :: "char \<Rightarrow> bool" where
  "is_digit c = (48 \<le> (of_char c :: nat) \<and> (of_char c :: nat) \<le> 57)"

definition is_quote :: "char \<Rightarrow> bool" where
  "is_quote c = ((of_char c :: nat) = 34 \<or> (of_char c :: nat) = 39)"

text \<open>
  Matching a literal of lower-case ASCII letters and punctuation under flag \<^verbatim>\<open>i\<close>
  at the head of the input; the result is the input after the literal.
\<close>

fun strip_ci :: "string \<Rightarrow> string \<Rightarrow> string option" where
  "strip_ci [] s = Some s"
| "strip_ci (p # ps) [] = None"
| "strip_ci (p # ps) (c # cs) = (if ascii_lower c = p then strip_ci ps cs else None)"

text \<open>An optional single character of a class: \<^verbatim>\<open>["']?\<close>.\<close>

fun skip_opt :: "(char \<Rightarrow> bool) \<Rightarrow> string \<Rightarrow> string" where
  "skip_opt P [] = []"
| "skip_opt P (c # cs) = (if P c then cs else c # cs)"

text \<open>An optional literal: \<^verbatim>\<open>(?:px)?\<close>.\<close>

definition skip_opt_ci :: "string \<Rightarrow> string \<Rightarrow> string" where
  "skip_opt_ci p s = (case strip_ci p s of None \<Rightarrow> s | Some r \<Rightarrow> r)"

text \<open>The number of binary digits of a natural number.\<close>

fun bit_length :: "nat \<Rightarrow> nat" where
  "bit_length n = (if n = 0 then 0 else Suc (bit_length (n div 2)))"

declare bit_length.simps [simp del]

text \<open>
  The double nearest to a natural number (round to nearest, ties to even): a number of
  at most 53 binary digits is a double; a longer one keeps its 53 leading binary digits
  \<open>q\<close>, rounded by the rest \<open>r\<close>, and overflows to \<^verbatim>\<open>Infinity\<close> from \<open>2 ^ 1024\<close> on.
\<close>

definition to_double :: "nat \<Rightarrow> number" where
  "to_double n =
     (if bit_length n \<le> 53 then Finite n
      else
        let e = bit_length n - 53;
            q = n div 2 ^ e;
            r = n mod 2 ^ e;
            half = 2 ^ (e - 1);
            m = (if r > half \<or> (r = half \<and> odd q) then q + 1 else q);
            v = m * 2 ^ e
        in if v \<ge> 2 ^ 1024 then Infinity else Finite v)"

text \<open>
  \<^verbatim>\<open>parseInt\<close> on the texts the validator hands it, which begin with a decimal digit:
  the double nearest to the value of the leading run of digits, and \<^verbatim>\<open>NaN\<close> (here
  \<open>None\<close>) when there is none. (ECMAScript lets an engine replace the digits after the
  20th by zeros before rounding; the engines round the exact value.)
\<close>

definition digit_val :: "char \<Rightarrow> nat" where
  "digit_val c = of_char c - 48"

definition parseInt :: "string \<Rightarrow> number option" where
  "parseInt s = (let ds = takeWhile is_digit s in
     if ds = [] then None
     else Some (to_double (foldl (\<lambda>a c. 10 * a + digit_val c) 0 ds)))"

text \<open>
  Rendering an integer below \<open>2 ^ 53\<close> (a count, an index, the score) in a template
  literal: its decimal digits.
\<close>

definition digit_char :: "nat \<Rightarrow> char" where
  "digit_char d = (''0123456789'' ! d)"

fun nat_toString :: "nat \<Rightarrow> string" where
  "nat_toString n =
     (if n < 10 then [digit_char n] else nat_toString (n div 10) @ [digit_char (n mod 10)])"

declare nat_toString.simps [simp del]

definition int_toString :: "int \<Rightarrow> string" where
  "int_toString i = (if i < 0 then CHR ''-'' # nat_toString (nat (- i)) else nat_toString (nat i))"

text \<open>
  Rendering a double in a template literal (\<^verbatim>\<open>Number::toString\<close>). The digits are those
  of the shortest decimal numeral \<open>s * 10 ^ p\<close> that reads back as the double \<open>x\<close>, the
  nearest to \<open>x\<close> when two of one length do, the even \<open>s\<close> on a tie. The search drops
  \<open>p\<close> low decimal digits of \<open>x\<close>, most first, and tries the numeral below and the
  numeral above \<open>x\<close>; its result is the value \<open>s * 10 ^ p\<close>.
\<close>

fun search_decimal :: "nat \<Rightarrow> nat \<Rightarrow> nat" where
  "search_decimal x p =
     (if p = 0 then x
      else
        let lo = (x div 10 ^ p) * 10 ^ p;
            hi = lo + 10 ^ p;
            ok_lo = (lo \<noteq> 0 \<and> to_double lo = Finite x);
            ok_hi = (to_double hi = Finite x)
        in if ok_lo \<and> ok_hi then
             (if x - lo < hi - x then lo
              else if hi - x < x - lo then hi
              else if even (x div 10 ^ p) then lo else hi)
           else if ok_lo then lo
           else if ok_hi then hi
           else search_decimal x (p - 1))"

declare search_decimal.simps [simp del]

definition shortest_decimal :: "nat \<Rightarrow> nat" where
  "shortest_decimal x = search_decimal x (length (nat_toString x) - 1)"

text \<open>
  A numeral of at most 21 digits is written out, with the zeros that follow its
  digits; a longer one is written with an exponent; \<^verbatim>\<open>Infinity\<close> by its name.
\<close>

definition Number_toString :: "number \<Rightarrow> string" where
  "Number_toString x =
     (case x of
        Infinity \<Rightarrow> ''Infinity''
      | Finite n \<Rightarrow>
         (let t = nat_toString (shortest_decimal n) in
          if length t \<le> 21 then t
          else
            (let ds = rev (dropWhile (\<lambda>c. c = CHR ''0'') (rev t))
             in (if length ds = 1 then ds else hd ds # CHR ''.'' # tl ds)
                @ ''e+'' @ nat_toString (length t - 1))))"

text \<open>\<^verbatim>\<open>Math.max\<close> of two numbers and the comparison \<^verbatim>\<open>>\<close> with an integer.\<close>

fun num_max :: "number \<Rightarrow> number \<Rightarrow> number" where
  "num_max (Finite a) (Finite b) = Finite (max a b)"
| "num_max Infinity y = Infinity"
| "num_max x Infinity = Infinity"

fun greater_than :: "number \<Rightarrow> nat \<Rightarrow> bool" where
  "greater_than (Finite a) b = (a > b)"
| "greater_than Infinity b = True"

section \<open>The regular expressions\<close>

text \<open>
  None of the three expressions has an anchor, a word boundary or a look-behind, so a
  match attempt at position \<open>lastIndex\<close> depends on the input from that position on
  only. The state of a global expression is therefore modelled by the rest of the
  input, and a successful attempt returns what the source reads from the match together
  with the input after the match (the new \<open>lastIndex\<close>).

  \<^verbatim>\<open>RegExp.prototype.exec\<close>: the leftmost position at or after \<open>lastIndex\<close> where the
  pattern matches, the empty rest included.
\<close>

fun regex_exec :: "(string \<Rightarrow> ('a \<times> string) option) \<Rightarrow> string \<Rightarrow> ('a \<times> string) option" where
  "regex_exec m [] = m []"
| "regex_exec m (c # cs) = (case m (c # cs) of Some r \<Rightarrow> Some r | None \<Rightarrow> regex_exec m cs)"

text \<open>
  \<^verbatim>\<open>/width\s*[=:]\s*["\']?(\d+)(?:px)?["\']?/gi\<close> at the head of the input. Every
  quantifier is greedy and no later part can fail after the digits, so the capture is
  the maximal run of digits. The result is the capture and the rest.
\<close>

definition width_match_here :: "string \<Rightarrow> (string \<times> string) option" where
  "width_match_here s =
     (case strip_ci ''width'' s of
        None \<Rightarrow> None
      | Some s1 \<Rightarrow>
         (case dropWhile is_space s1 of
            [] \<Rightarrow> None
          | c # s2 \<Rightarrow>
             if c = CHR ''='' \<or> c = CHR '':'' then
               (let s3 = skip_opt is_quote (dropWhile is_space s2);
                    digits = takeWhile is_digit s3
                in if digits = [] then None
                   else Some (digits,
                     skip_opt is_quote (skip_opt_ci ''px'' (dropWhile is_digit s3))))
             else None))"

text \<open>
  \<^verbatim>\<open>/font-family\s*:\s*([^;]+)/gi\<close> at the head of the input. The capture is the
  maximal run of characters other than \<open>;\<close> after the white space; when that run is
  empty the expression backtracks and the last white-space character is the capture.
\<close>

definition font_match_here :: "string \<Rightarrow> (string \<times> string) option" where
  "font_match_here s =
     (case strip_ci ''font-family'' s of
        None \<Rightarrow> None
      | Some s1 \<Rightarrow>
         (case dropWhile is_space s1 of
            [] \<Rightarrow> None
          | c # s2 \<Rightarrow>
             if c = CHR '':'' then
               (let ws = takeWhile is_space s2;
                    s3 = dropWhile is_space s2;
                    body = takeWhile (\<lambda>c. c \<noteq> CHR '';'') s3
                in if body \<noteq> [] then Some (body, dropWhile (\<lambda>c. c \<noteq> CHR '';'') s3)
                   else if ws \<noteq> [] then Some ([last ws], s3)
                   else None)
             else None))"

text \<open>
  \<^verbatim>\<open>/<img[^>]*>/gi\<close> at the head of the input. The result is the matched text and
  the rest.
\<close>

definition img_match_here :: "string \<Rightarrow> (string \<times> string) option" where
  "img_match_here s =
     (case strip_ci ''<img'' s of
        None \<Rightarrow> None
      | Some s1 \<Rightarrow>
         (case dropWhile (\<lambda>c. c \<noteq> CHR ''>'') s1 of
            [] \<Rightarrow> None
          | c # rest \<Rightarrow> Some (take (length s - length rest) s, rest)))"

section \<open>Findings\<close>

text \<open>
  Every object literal the checks push sets \<^verbatim>\<open>type\<close>, \<^verbatim>\<open>category\<close>,
  \<^verbatim>\<open>message\<close> and \<^verbatim>\<open>suggestion\<close>, and leaves \<^verbatim>\<open>line\<close> and \<^verbatim>\<open>column\<close> out.
\<close>

definition finding :: "severity \<Rightarrow> category \<Rightarrow> string \<Rightarrow> string \<Rightarrow> ValidationError" where
  "finding t c m s =
     \<lparr>type = t, category = c, message = m, suggestion = Some s, line = None, column = None\<rparr>"

definition table_layout_error :: ValidationError where
  \<open>table_layout_error = finding Error Structure
     ''Email must use table-based layout for maximum email client compatibility''
     ''Use <table> elements for layout instead of <div> elements''\<close>

definition doctype_warning :: ValidationWarning where
  \<open>doctype_warning = finding Warning Structure
     ''Missing HTML 4.01 Transitional DOCTYPE''
     ''Add DOCTYPE html PUBLIC "-//W3C//DTD HTML 4.01 Transitional//EN" for better compatibility''\<close>

definition document_structure_warning :: ValidationWarning where
  \<open>document_structure_warning = finding Warning Structure
     ''Missing proper HTML document structure''
     ''Include <html> and <body> tags with proper attributes''\<close>

definition viewport_warning :: ValidationWarning where
  \<open>viewport_warning = finding Warning Structure
     ''Missing viewport meta tag''
     ''Add <meta name="viewport" content="width=device-width, initial-scale=1.0"/> for mobile support''\<close>

definition javascript_error :: ValidationError where
  \<open>javascript_error = finding Error Structure
     ''JavaScript is not supported in email clients''
     ''Remove all JavaScript code as it will be stripped by email clients''\<close>

definition form_warning :: ValidationWarning where
  \<open>form_warning = finding Warning Structure
     ''Forms have limited support in email clients''
     ''Consider using links to external forms instead''\<close>

definition external_stylesheet_error :: ValidationError where
  \<open>external_stylesheet_error = finding Error Css
     ''External stylesheets are blocked by most email clients''
     ''Use inline styles instead of external CSS files''\<close>

definition style_tag_error :: ValidationError where
  \<open>style_tag_error = finding Error Css
     ''Style tags have limited support in email clients''
     ''Move all CSS to inline style attributes''\<close>

definition unsupportedProperties :: "(string \<times> string) list" where
  \<open>unsupportedProperties =
     [(''position: fixed'', ''Fixed positioning is not supported''),
      (''position: absolute'', ''Absolute positioning has limited support''),
      (''float:'', ''Float property has inconsistent support''),
      (''display: flex'', ''Flexbox is not supported in most email clients''),
      (''display: grid'', ''CSS Grid is not supported in email clients''),
      (''transform:'', ''CSS transforms are not supported''),
      (''animation:'', ''CSS animations are not supported''),
      (''@media'', ''Media queries have limited support''),
      (''@keyframes'', ''CSS animations are not supported'')]\<close>

definition unsupported_property_warning :: "string \<Rightarrow> string \<Rightarrow> ValidationWarning" where
  \<open>unsupported_property_warning prop msg = finding Warning Css
     (''CSS property "'' @ prop @ ''" - '' @ msg)
     ''Use table-based layout and inline styles for better compatibility''\<close>

definition max_width_error :: "number \<Rightarrow> ValidationError" where
  \<open>max_width_error maxWidth = finding Error Css
     (''Maximum width exceeded: '' @ Number_toString maxWidth @ ''px (limit: ''
        @ Number_toString (Finite MAX_WIDTH) @ ''px)'')
     (''Use max-width: '' @ Number_toString (Finite MAX_WIDTH) @ ''px for email compatibility'')\<close>

definition font_warning :: ValidationWarning where
  \<open>font_warning = finding Warning Css
     ''Non-web-safe font detected''
     ''Use web-safe fonts like Arial, Helvetica, or sans-serif with fallbacks''\<close>

text \<open>The four findings of an image; \<open>index\<close> is the 0-based position of the match.\<close>

definition img_alt_warning :: "nat \<Rightarrow> ValidationWarning" where
  \<open>img_alt_warning index = finding Warning Accessibility
     (''Image '' @ nat_toString (index + 1) @ '' is missing alt text'')
     ''Add alt attribute for accessibility and when images are blocked''\<close>

definition img_width_warning :: "nat \<Rightarrow> ValidationWarning" where
  \<open>img_width_warning index = finding Warning Images
     (''Image '' @ nat_toString (index + 1) @ '' is missing width attribute'')
     ''Add width attribute for consistent rendering across email clients''\<close>

definition img_height_warning :: "nat \<Rightarrow> ValidationWarning" where
  \<open>img_height_warning index = finding Warning Images
     (''Image '' @ nat_toString (index + 1) @ '' is missing height attribute'')
     ''Add height attribute for consistent rendering across email clients''\<close>

definition img_display_warning :: "nat \<Rightarrow> ValidationWarning" where
  \<open>img_display_warning index = finding Warning Images
     (''Image '' @ nat_toString (index + 1) @ '' should use display: block'')
     ''Add style="display: block;" to prevent spacing issues''\<close>

definition cellpadding_warning :: ValidationWarning where
  \<open>cellpadding_warning = finding Warning Compatibility
     ''Tables should include cellpadding="0"''
     ''Add cellpadding="0" for consistent spacing across email clients''\<close>

definition cellspacing_warning :: ValidationWarning where
  \<open>cellspacing_warning = finding Warning Compatibility
     ''Tables should include cellspacing="0"''
     ''Add cellspacing="0" for consistent spacing across email clients''\<close>

definition border_warning :: ValidationWarning where
  \<open>border_warning = finding Warning Compatibility
     ''Tables should include border="0"''
     ''Add border="0" to remove default table borders''\<close>

definition background_image_warning :: ValidationWarning where
  \<open>background_image_warning = finding Warning Compatibility
     ''Background images have limited support in Outlook''
     ''Consider using VML fallbacks for Outlook or avoid background images''\<close>

definition semantic_html_warning :: ValidationWarning where
  \<open>semantic_html_warning = finding Warning Accessibility
     ''Consider using semantic HTML or ARIA roles''
     ''Add role attributes or use semantic HTML elements for better accessibility''\<close>

definition color_contrast_warning :: ValidationWarning where
  \<open>color_contrast_warning = finding Warning Accessibility
     ''Ensure sufficient color contrast''
     ''Test color combinations for accessibility compliance''\<close>

section \<open>The checks\<close>

text \<open>
  A check receives the two arrays \<^verbatim>\<open>errors\<close> and \<^verbatim>\<open>warnings\<close> of \<^verbatim>\<open>validate\<close>,
  pushes onto them and returns nothing; the model passes the pair in and out. Where
  a parameter cannot bear the name of a field of the result, \<open>errors\<close> and \<open>warnings\<close>
  are written \<open>errs\<close> and \<open>warns\<close>.
\<close>

type_synonym findings = "ValidationError list \<times> ValidationWarning list"

definition validateStructure :: "string \<Rightarrow> findings \<Rightarrow> findings" where
  \<open>validateStructure html = (\<lambda>(errors, warnings).
     let errors = (if \<not> str_includes html ''<table''
                   then push errors table_layout_error else errors);
         warnings = (if \<not> str_includes html ''DOCTYPE html PUBLIC''
                     then push warnings doctype_warning else warnings);
         warnings = (if \<not> str_includes html ''<html'' \<or> \<not> str_includes html ''<body''
                     then push warnings document_structure_warning else warnings);
         warnings = (if \<not> str_includes html ''viewport''
                     then push warnings viewport_warning else warnings);
         errors = (if str_includes html ''<script'' \<or> str_includes html ''javascript:''
                   then push errors javascript_error else errors);
         warnings = (if str_includes html ''<form''
                     then push warnings form_warning else warnings)
     in (errors, warnings))\<close>

text \<open>
  The loop \<^verbatim>\<open>while ((match = widthRegex.exec(html)) !== null)\<close>. Its state is the
  rest of the input after the last match and the array \<^verbatim>\<open>widths\<close>; the loop returns
  \<open>None\<close> when it does not terminate.
\<close>

partial_function (option) width_loop :: "string \<Rightarrow> number list \<Rightarrow> number list option" where
  "width_loop rest widths =
     (case regex_exec width_match_here rest of
        None \<Rightarrow> Some widths
      | Some (digits, rest') \<Rightarrow>
         (case parseInt digits of
            None \<Rightarrow> width_loop rest' widths
          | Some width \<Rightarrow> width_loop rest' (push widths width)))"

declare width_loop.simps [code]

text \<open>
  \<^verbatim>\<open>widths.length > 0 ? Math.max(...widths) : 0\<close>. The spread passes every element of
  \<^verbatim>\<open>widths\<close> as an argument of one call, and an engine throws \<^verbatim>\<open>RangeError\<close> when a
  call has more arguments than it has room for. That bound is the engine's (its stack
  size), not the source's, and is the parameter \<open>max_arguments\<close> of the model.
\<close>

definition maxWidth_of :: "nat \<Rightarrow> number list \<Rightarrow> error + number" where
  "maxWidth_of max_arguments widths =
     (if length widths > 0 then
        (if length widths > max_arguments then Inl RangeError
         else Inr (fold num_max (tl widths) (hd widths)))
      else Inr (Finite 0))"

text \<open>The loop \<^verbatim>\<open>while ((fontMatch = fontFamilyRegex.exec(html)) !== null)\<close>.\<close>

partial_function (option) font_loop ::
    "string \<Rightarrow> ValidationWarning list \<Rightarrow> ValidationWarning list option" where
  "font_loop rest warns =
     (case regex_exec font_match_here rest of
        None \<Rightarrow> Some warns
      | Some (capture, rest') \<Rightarrow>
         (let fontFamily = toLowerCase capture in
          if \<not> str_includes fontFamily ''arial'' \<and> \<not> str_includes fontFamily ''helvetica''
             \<and> \<not> str_includes fontFamily ''sans-serif''
          then font_loop rest' (push warns font_warning)
          else font_loop rest' warns))"

declare font_loop.simps [code]

text \<open>
  \<^verbatim>\<open>validateCSS\<close> returns \<open>None\<close> when one of its loops does not terminate, \<open>Inl\<close> of
  the exception when \<^verbatim>\<open>Math.max\<close> throws, and \<open>Inr\<close> of the two arrays otherwise.
\<close>

definition validateCSS :: "nat \<Rightarrow> string \<Rightarrow> findings \<Rightarrow> (error + findings) option" where
  \<open>validateCSS max_arguments html = (\<lambda>(errors, warnings).
     let errors = (if str_includes html ''<link'' \<and> str_includes html ''stylesheet''
                   then push errors external_stylesheet_error else errors);
         errors = (if str_includes html ''<style>''
                   then push errors style_tag_error else errors);
         warnings = fold (\<lambda>(prop, msg) warnings.
                       if str_includes (toLowerCase html) (toLowerCase prop)
                       then push warnings (unsupported_property_warning prop msg)
                       else warnings) unsupportedProperties warnings
     in case width_loop html [] of
          None \<Rightarrow> None
        | Some widths \<Rightarrow>
           (case maxWidth_of max_arguments widths of
              Inl e \<Rightarrow> Some (Inl e)
            | Inr maxWidth \<Rightarrow>
               (let errors = (if greater_than maxWidth MAX_WIDTH
                              then push errors (max_width_error maxWidth) else errors)
                in case font_loop html warnings of
                     None \<Rightarrow> None
                   | Some warnings \<Rightarrow> Some (Inr (errors, warnings)))))\<close>

text \<open>
  \<^verbatim>\<open>html.match(imgRegex)\<close> with a global expression: the texts of the successive
  matches, or \<^verbatim>\<open>null\<close> when there is none.
\<close>

function img_matches :: "string \<Rightarrow> string list" where
  "img_matches s =
     (case regex_exec img_match_here s of
        None \<Rightarrow> []
      | Some (m, rest) \<Rightarrow> m # img_matches rest)"
  by pat_completeness auto
termination
proof (relation "measure length")
  show "wf (measure length)"
    by simp
next
  fix s :: string and x2 :: "string \<times> string" and m rest :: string
  assume ex: "regex_exec img_match_here s = Some x2" and x2: "(m, rest) = x2"
  have strip: "length r \<le> length t" if "strip_ci p t = Some r" for p t r
    using that by (induction p t rule: strip_ci.induct) (auto split: if_splits)
  have here: "length r < length t" if "img_match_here t = Some (a, r)" for t a r
  proof -
    from that obtain s1 c where s1: "strip_ci ''<img'' t = Some s1"
      and d: "dropWhile (\<lambda>c. c \<noteq> CHR ''>'') s1 = c # r"
      by (auto simp: img_match_here_def split: option.splits list.splits)
    have "length (dropWhile (\<lambda>c. c \<noteq> CHR ''>'') s1) \<le> length s1"
      by (rule length_dropWhile_le)
    with d strip [OF s1] show ?thesis
      by simp
  qed
  have "length r < length t" if "regex_exec img_match_here t = Some (a, r)" for t a r
    using that
  proof (induction t)
    case Nil
    then show ?case
      by (simp add: img_match_here_def)
  next
    case (Cons c cs)
    then show ?case
      by (cases "img_match_here (c # cs)") (auto dest: here)
  qed
  with ex x2 show "(rest, s) \<in> measure length"
    by auto
qed

declare img_matches.simps [simp del]

definition String_match_img :: "string \<Rightarrow> string list option" where
  "String_match_img html = (let ms = img_matches html in if ms = [] then None else Some ms)"

text \<open>The body of \<^verbatim>\<open>images.forEach((img, index) => ...)\<close>.\<close>

definition check_img :: "string \<Rightarrow> nat \<Rightarrow> ValidationWarning list \<Rightarrow> ValidationWarning list" where
  \<open>check_img img index warns =
     (let warnings = (if \<not> str_includes img ''alt=''
                      then push warns (img_alt_warning index) else warns);
          warnings = (if \<not> str_includes img ''width=''
                      then push warnings (img_width_warning index) else warnings);
          warnings = (if \<not> str_includes img ''height=''
                      then push warnings (img_height_warning index) else warnings);
          warnings = (if \<not> str_includes img ''display: block''
                         \<and> \<not> str_includes img ''display:block''
                      then push warnings (img_display_warning index) else warnings)
      in warnings)\<close>

fun img_forEach :: "string list \<Rightarrow> nat \<Rightarrow> ValidationWarning list \<Rightarrow> ValidationWarning list" where
  "img_forEach [] index warns = warns"
| "img_forEach (img # images) index warns =
     img_forEach images (index + 1) (check_img img index warns)"

definition validateImages :: "string \<Rightarrow> findings \<Rightarrow> findings" where
  "validateImages html = (\<lambda>(errors, warnings).
     let images = (case String_match_img html of None \<Rightarrow> [] | Some ms \<Rightarrow> ms)
     in (errors, img_forEach images 0 warnings))"

definition validateCompatibility :: "string \<Rightarrow> findings \<Rightarrow> findings" where
  \<open>validateCompatibility html = (\<lambda>(errors, warnings).
     let warnings =
           (if str_includes html ''<table'' then
              (let warnings = (if \<not> str_includes html ''cellpadding="0"''
                               then push warnings cellpadding_warning else warnings);
                   warnings = (if \<not> str_includes html ''cellspacing="0"''
                               then push warnings cellspacing_warning else warnings);
                   warnings = (if \<not> str_includes html ''border="0"''
                               then push warnings border_warning else warnings)
               in warnings)
            else warnings);
         warnings = (if str_includes html ''background-image:''
                     then push warnings background_image_warning else warnings)
     in (errors, warnings))\<close>

definition validateAccessibility :: "string \<Rightarrow> findings \<Rightarrow> findings" where
  \<open>validateAccessibility html = (\<lambda>(errors, warnings).
     let warnings = (if str_includes html ''<div'' \<and> \<not> str_includes html ''role=''
                     then push warnings semantic_html_warning else warnings);
         warnings = (if str_includes html ''color:'' \<and> \<not> str_includes html ''background-color:''
                     then push warnings color_contrast_warning else warnings)
     in (errors, warnings))\<close>

section \<open>Score, result and summary\<close>

definition calculateCompatibilityScore ::
    "ValidationError list \<Rightarrow> ValidationWarning list \<Rightarrow> int" where
  "calculateCompatibilityScore errs warns =
     (let score = 100;
          errorCount = length (filter (\<lambda>e. type e = Error) errs);
          score = score - int errorCount * 15;
          warningCount = length warns;
          score = score - int warningCount * 5
      in max 0 (min 100 score))"

text \<open>
  \<^verbatim>\<open>EmailValidator.validate\<close>, for an engine that accepts \<open>max_arguments\<close> arguments
  in a call. The outcome is \<open>None\<close> when one of the two loops of \<^verbatim>\<open>validateCSS\<close> does
  not terminate, \<open>Some (Inl e)\<close> when the exception \<open>e\<close> is thrown (the source catches
  none), and \<open>Some (Inr r)\<close> when the result \<open>r\<close> is returned.
\<close>

definition validate :: "nat \<Rightarrow> string \<Rightarrow> (error + ValidationResult) option" where
  "validate max_arguments html =
     (case validateCSS max_arguments html (validateStructure html ([], [])) of
        None \<Rightarrow> None
      | Some (Inl e) \<Rightarrow> Some (Inl e)
      | Some (Inr css) \<Rightarrow>
         (let (errors, warnings) =
                validateAccessibility html (validateCompatibility html (validateImages html css));
              score = calculateCompatibilityScore errors warnings
          in Some (Inr \<lparr>isValid = (length errors = 0), errors = errors @ warnings,
                    warnings = warnings, score = score\<rparr>)))"

text \<open>
  \<^verbatim>\<open>EmailValidator.getValidationSummary\<close>. The three pictographs that open the
  summaries (U+2705; U+26A0 U+FE0F; U+274C) lie outside the 8-bit characters and are
  written as their UTF-8 bytes.
\<close>

definition check_mark :: string where
  "check_mark = [CHR 0xE2, CHR 0x9C, CHR 0x85]"

definition warning_sign :: string where
  "warning_sign = [CHR 0xE2, CHR 0x9A, CHR 0xA0, CHR 0xEF, CHR 0xB8, CHR 0x8F]"

definition cross_mark :: string where
  "cross_mark = [CHR 0xE2, CHR 0x9D, CHR 0x8C]"

definition plural :: "nat \<Rightarrow> string" where
  "plural n = (if n \<noteq> 1 then ''s'' else [])"

definition getValidationSummary :: "ValidationResult \<Rightarrow> string" where
  "getValidationSummary result =
     (let errorCount = length (filter (\<lambda>e. type e = Error) (errors result));
          warningCount = length (warnings result)
      in if errorCount = 0 \<and> warningCount = 0 then
           check_mark @ '' Perfect! Your email template is fully compatible (Score: ''
             @ int_toString (score result) @ ''/100)''
         else if errorCount = 0 then
           warning_sign @ '' Good compatibility with '' @ nat_toString warningCount
             @ '' minor issue'' @ plural warningCount
             @ '' (Score: '' @ int_toString (score result) @ ''/100)''
         else
           cross_mark @ '' '' @ nat_toString errorCount @ '' error'' @ plural errorCount
             @ '' and '' @ nat_toString warningCount @ '' warning'' @ plural warningCount
             @ '' found (Score: '' @ int_toString (score result) @ ''/100)'')"

section \<open>Auxiliary notions of the proofs\<close>

text \<open>
  The warnings of every check but the image check: of type \<open>Warning\<close>, with a message
  that does not start like the message of an image finding.
\<close>

definition plain_warning :: "ValidationError \<Rightarrow> bool" where
  "plain_warning w = (type w = Warning \<and> \<not> prefix ''Image '' (message w))"

text \<open>
  The findings of type \<open>Error\<close> that the checks push for an input whose maximal width is
  \<open>m\<close>, in the order of the pushes, and the findings of the image check.
\<close>

definition error_findings :: "string \<Rightarrow> number \<Rightarrow> ValidationError list" where
  "error_findings html m =
     (if \<not> str_includes html ''<table'' then [table_layout_error] else [])
     @ (if str_includes html ''<script'' \<or> str_includes html ''javascript:''
        then [javascript_error] else [])
     @ (if str_includes html ''<link'' \<and> str_includes html ''stylesheet''
        then [external_stylesheet_error] else [])
     @ (if str_includes html ''<style>'' then [style_tag_error] else [])
     @ (if greater_than m MAX_WIDTH then [max_width_error m] else [])"

definition image_findings :: "string \<Rightarrow> ValidationWarning list" where
  "image_findings html =
     concat (map (\<lambda>(i, img). check_img img i []) (enumerate 0 (img_matches html)))"

text \<open>
  The reading of the specification for the width check: the numbers of all occurrences
  of the width pattern in the input, wherever they start. It is compared below with what
  the loop of \<^verbatim>\<open>validateCSS\<close> collects.
\<close>

definition width_occurrences :: "string \<Rightarrow> number set" where
  "width_occurrences html =
     {n. \<exists>u d rest. suffix u html \<and> width_match_here u = Some (d, rest) \<and> parseInt d = Some n}"

section \<open>Termination of the loops\<close>

lemma strip_ci_length: "strip_ci p t = Some r \<Longrightarrow> length t = length p + length r"
  by (induction p t rule: strip_ci.induct) (auto split: if_splits)

lemma width_match_here_shorter:
  assumes "width_match_here t = Some (d, r)"
  shows "length r < length t"
proof -
  from assms obtain s1 c s2 where s1: "strip_ci ''width'' t = Some s1"
    and d: "dropWhile is_space s1 = c # s2"
    and r: "r = skip_opt is_quote (skip_opt_ci ''px''
              (dropWhile is_digit (skip_opt is_quote (dropWhile is_space s2))))"
    by (auto simp: width_match_here_def Let_def split: option.splits list.splits if_splits)
  have opt: "length (skip_opt P u) \<le> length u" for P u
    by (cases u) auto
  have px: "length (skip_opt_ci p u) \<le> length u" for p u
    by (auto simp: skip_opt_ci_def dest: strip_ci_length split: option.splits)
  have dw: "length (dropWhile P u) \<le> length u" for P and u :: string
    by (rule length_dropWhile_le)
  have "length r \<le> length s2"
    unfolding r
    by (meson opt px dw le_trans)
  moreover have "length (c # s2) \<le> length s1"
    using dw [of is_space s1] d by simp
  moreover have "length s1 \<le> length t"
    using strip_ci_length [OF s1] by simp
  ultimately show ?thesis
    by simp
qed

lemma font_match_here_shorter:
  assumes "font_match_here t = Some (d, r)"
  shows "length r < length t"
proof -
  from assms obtain s1 c s2 where s1: "strip_ci ''font-family'' t = Some s1"
    and d: "dropWhile is_space s1 = c # s2"
    and r: "r = dropWhile (\<lambda>c. c \<noteq> CHR '';'') (dropWhile is_space s2) \<or> r = dropWhile is_space s2"
    by (auto simp: font_match_here_def Let_def split: option.splits list.splits if_splits)
  have dw: "length (dropWhile P u) \<le> length u" for P and u :: string
    by (rule length_dropWhile_le)
  have "length r \<le> length s2"
    using r by (meson dw le_trans)
  moreover have "length (c # s2) \<le> length s1"
    using dw [of is_space s1] d by simp
  moreover have "length s1 \<le> length t"
    using strip_ci_length [OF s1] by simp
  ultimately show ?thesis
    by simp
qed

lemma regex_exec_shorter:
  assumes "\<And>t a r. m t = Some (a, r) \<Longrightarrow> length r < length t"
    and "regex_exec m t = Some (a, r)"
  shows "length r < length t"
  using assms(2)
proof (induction t)
  case Nil
  then show ?case
    using assms(1) [of "[]" a r] by simp
next
  case (Cons c cs)
  show ?case
  proof (cases "m (c # cs)")
    case None
    with Cons show ?thesis
      by auto
  next
    case (Some x)
    with Cons.prems assms(1) [of "c # cs" a r] show ?thesis
      by auto
  qed
qed

lemma width_loop_returns: "\<exists>ws. width_loop s widths = Some (widths @ ws)"
proof (induction s arbitrary: widths rule: length_induct)
  case (1 s)
  show ?case
  proof (cases "regex_exec width_match_here s")
    case None
    then show ?thesis
      by (subst width_loop.simps) simp
  next
    case (Some x)
    obtain d r where x: "x = (d, r)"
      by (cases x)
    have "length r < length s"
      using Some x regex_exec_shorter [of width_match_here s d r] width_match_here_shorter
      by blast
    with 1 have ih: "\<exists>ws. width_loop r w = Some (w @ ws)" for w
      by blast
    show ?thesis
    proof (cases "parseInt d")
      case None
      with Some x ih [of widths] show ?thesis
        by (subst width_loop.simps) simp
    next
      case (Some w)
      from ih [of "push widths w"] obtain ws where "width_loop r (push widths w) = Some (widths @ w # ws)"
        by (auto simp: push_def)
      with Some \<open>regex_exec width_match_here s = Some x\<close> x show ?thesis
        by (subst width_loop.simps) simp
    qed
  qed
qed

lemma font_loop_returns:
  "\<exists>ns. font_loop s warns = Some (warns @ ns) \<and> (\<forall>w \<in> set ns. w = font_warning)"
proof (induction s arbitrary: warns rule: length_induct)
  case (1 s)
  show ?case
  proof (cases "regex_exec font_match_here s")
    case None
    then show ?thesis
      by (subst font_loop.simps) simp
  next
    case (Some x)
    obtain d r where x: "x = (d, r)"
      by (cases x)
    have "length r < length s"
      using Some x regex_exec_shorter [of font_match_here s d r] font_match_here_shorter
      by blast
    with 1 have ih: "\<exists>ns. font_loop r w = Some (w @ ns) \<and> (\<forall>w \<in> set ns. w = font_warning)" for w
      by blast
    let ?bad = "\<not> str_includes (toLowerCase d) ''arial'' \<and> \<not> str_includes (toLowerCase d) ''helvetica''
             \<and> \<not> str_includes (toLowerCase d) ''sans-serif''"
    show ?thesis
    proof (cases ?bad)
      case False
      with Some x ih [of warns] show ?thesis
        by (subst font_loop.simps) (auto simp: Let_def)
    next
      case True
      from ih [of "push warns font_warning"] obtain ns
        where "font_loop r (push warns font_warning) = Some (warns @ font_warning # ns)"
          and "\<forall>w \<in> set ns. w = font_warning"
        by (auto simp: push_def)
      with True Some x show ?thesis
        by (subst font_loop.simps) (simp add: Let_def)
    qed
  qed
qed

section \<open>What each check appends\<close>

lemma type_finding [simp]: "type (finding t c m s) = t"
  and category_finding [simp]: "category (finding t c m s) = c"
  and message_finding [simp]: "message (finding t c m s) = m"
  by (simp_all add: finding_def)

lemmas structure_warning_defs =
  doctype_warning_def document_structure_warning_def viewport_warning_def form_warning_def

lemma validateStructure_eq:
  "\<exists>ns. validateStructure html (es, ws) =
     (es @ (if \<not> str_includes html ''<table'' then [table_layout_error] else [])
         @ (if str_includes html ''<script'' \<or> str_includes html ''javascript:''
            then [javascript_error] else []),
      ws @ ns) \<and> (\<forall>w \<in> set ns. plain_warning w)"
  by (auto simp: validateStructure_def push_def Let_def plain_warning_def structure_warning_defs)

lemma unsupported_fold:
  "\<exists>ns. fold (\<lambda>(prop, msg) warnings.
            if str_includes l (toLowerCase prop)
            then push warnings (unsupported_property_warning prop msg)
            else warnings) props ws = ws @ ns \<and> (\<forall>w \<in> set ns. plain_warning w)"
proof (induction props arbitrary: ws)
  case Nil
  then show ?case
    by simp
next
  case (Cons p props)
  obtain pr msg where p: "p = (pr, msg)"
    by (cases p)
  have pw: "plain_warning (unsupported_property_warning pr msg)"
    by (simp add: plain_warning_def unsupported_property_warning_def)
  show ?case
  proof (cases "str_includes l (toLowerCase pr)")
    case True
    from Cons [of "push ws (unsupported_property_warning pr msg)"] obtain ns where
      "fold (\<lambda>(prop, msg) warnings.
            if str_includes l (toLowerCase prop)
            then push warnings (unsupported_property_warning prop msg)
            else warnings) props (push ws (unsupported_property_warning pr msg))
        = ws @ unsupported_property_warning pr msg # ns" and "\<forall>w \<in> set ns. plain_warning w"
      by (auto simp: push_def)
    with True p pw show ?thesis
      by simp
  next
    case False
    with Cons [of ws] p show ?thesis
      by simp
  qed
qed

lemma validateCSS_eq:
  assumes "width_loop html [] = Some widths" and "maxWidth_of L widths = Inr m"
  shows "\<exists>ns. validateCSS L html (es, ws) =
     Some (Inr (es @ (if str_includes html ''<link'' \<and> str_includes html ''stylesheet''
                 then [external_stylesheet_error] else [])
              @ (if str_includes html ''<style>'' then [style_tag_error] else [])
              @ (if greater_than m MAX_WIDTH then [max_width_error m] else []),
           ws @ ns)) \<and> (\<forall>w \<in> set ns. plain_warning w)"
proof -
  let ?f = "\<lambda>(prop, msg) warnings.
            if str_includes (toLowerCase html) (toLowerCase prop)
            then push warnings (unsupported_property_warning prop msg)
            else warnings"
  from unsupported_fold [of "toLowerCase html" unsupportedProperties ws]
  obtain ns1 where ns1: "fold ?f unsupportedProperties ws = ws @ ns1"
    and p1: "\<forall>w \<in> set ns1. plain_warning w"
    by blast
  from font_loop_returns [of html "ws @ ns1"]
  obtain ns2 where ns2: "font_loop html (ws @ ns1) = Some ((ws @ ns1) @ ns2)"
    and p2: "\<forall>w \<in> set ns2. w = font_warning"
    by blast
  have "plain_warning font_warning"
    by (simp add: plain_warning_def font_warning_def)
  with p1 p2 have "\<forall>w \<in> set (ns1 @ ns2). plain_warning w"
    by auto
  moreover have "validateCSS L html (es, ws) =
     Some (Inr (es @ (if str_includes html ''<link'' \<and> str_includes html ''stylesheet''
                 then [external_stylesheet_error] else [])
              @ (if str_includes html ''<style>'' then [style_tag_error] else [])
              @ (if greater_than m MAX_WIDTH then [max_width_error m] else []),
           ws @ (ns1 @ ns2)))"
    using assms ns1 ns2 by (simp add: validateCSS_def push_def Let_def)
  ultimately show ?thesis
    by blast
qed

text \<open>When \<^verbatim>\<open>Math.max\<close> throws, the check and the validator throw.\<close>

lemma validateCSS_throws:
  assumes "width_loop html [] = Some widths" and "maxWidth_of L widths = Inl e"
  shows "validateCSS L html (es, ws) = Some (Inl e)"
  using assms by (simp add: validateCSS_def Let_def)

lemma maxWidth_of_throws: "(maxWidth_of L widths = Inl e) = (e = RangeError \<and> L < length widths)"
  by (cases e) (auto simp: maxWidth_of_def)

lemmas img_warning_defs =
  img_alt_warning_def img_width_warning_def img_height_warning_def img_display_warning_def

lemma check_img_eq:
  \<open>check_img img index ws = ws
     @ (if \<not> str_includes img ''alt='' then [img_alt_warning index] else [])
     @ (if \<not> str_includes img ''width='' then [img_width_warning index] else [])
     @ (if \<not> str_includes img ''height='' then [img_height_warning index] else [])
     @ (if \<not> str_includes img ''display: block'' \<and> \<not> str_includes img ''display:block''
        then [img_display_warning index] else [])\<close>
  by (simp add: check_img_def push_def Let_def)

lemma check_img_append: "check_img img index ws = ws @ check_img img index []"
  by (simp add: check_img_eq [of img index ws] check_img_eq [of img index "[]"])

lemma img_forEach_eq:
  "img_forEach images index ws =
     ws @ concat (map (\<lambda>(i, img). check_img img i []) (enumerate index images))"
proof (induction images arbitrary: index ws)
  case Nil
  then show ?case
    by simp
next
  case (Cons img images)
  show ?case
    using Cons [of "Suc index" "check_img img index ws"] check_img_append [of img index ws]
    by simp
qed

lemma validateImages_eq:
  "validateImages html (es, ws) =
     (es, ws @ concat (map (\<lambda>(i, img). check_img img i []) (enumerate 0 (img_matches html))))"
  by (simp add: validateImages_def String_match_img_def Let_def img_forEach_eq)

lemma check_img_image_warnings:
  "w \<in> set (check_img img index []) \<Longrightarrow> type w = Warning \<and> prefix ''Image '' (message w)"
  by (auto simp: check_img_eq [of img index "[]"] img_warning_defs split: if_splits)

lemma image_warnings:
  assumes "w \<in> set (concat (map (\<lambda>(i, img). check_img img i []) (enumerate k images)))"
  shows "type w = Warning \<and> prefix ''Image '' (message w)"
proof -
  from assms obtain i img where "w \<in> set (check_img img i [])"
    by auto
  then show ?thesis
    by (rule check_img_image_warnings)
qed

lemmas compatibility_warning_defs =
  cellpadding_warning_def cellspacing_warning_def border_warning_def background_image_warning_def

lemma validateCompatibility_eq:
  "\<exists>ns. validateCompatibility html (es, ws) = (es, ws @ ns) \<and> (\<forall>w \<in> set ns. plain_warning w)"
  by (auto simp: validateCompatibility_def push_def Let_def plain_warning_def
      compatibility_warning_defs)

lemma validateAccessibility_eq:
  "\<exists>ns. validateAccessibility html (es, ws) = (es, ws @ ns) \<and> (\<forall>w \<in> set ns. plain_warning w)"
  by (auto simp: validateAccessibility_def push_def Let_def plain_warning_def
      semantic_html_warning_def color_contrast_warning_def)

lemma validate_decomp:
  assumes "width_loop html [] = Some widths" and "maxWidth_of L widths = Inr m"
  shows "\<exists>pre post. validate L html =
           Some (Inr \<lparr>isValid = (error_findings html m = []),
                  errors = error_findings html m @ pre @ image_findings html @ post,
                  warnings = pre @ image_findings html @ post,
                  score = calculateCompatibilityScore (error_findings html m)
                    (pre @ image_findings html @ post)\<rparr>)
         \<and> (\<forall>w \<in> set pre. plain_warning w) \<and> (\<forall>w \<in> set post. plain_warning w)"
proof -
  let ?S = "(if \<not> str_includes html ''<table'' then [table_layout_error] else [])
           @ (if str_includes html ''<script'' \<or> str_includes html ''javascript:''
              then [javascript_error] else [])"
  let ?E = "error_findings html m"
  let ?I = "image_findings html"
  from validateStructure_eq [of html "[]" "[]"] obtain n1 where
    s: "validateStructure html ([], []) = (?S, n1)"
    and p1: "\<forall>w \<in> set n1. plain_warning w"
    by auto
  from validateCSS_eq [OF assms, of ?S n1] obtain n2 where
    "validateCSS L html (?S, n1) =
       Some (Inr (?S @ (if str_includes html ''<link'' \<and> str_includes html ''stylesheet''
                 then [external_stylesheet_error] else [])
              @ (if str_includes html ''<style>'' then [style_tag_error] else [])
              @ (if greater_than m MAX_WIDTH then [max_width_error m] else []), n1 @ n2))"
    and p2: "\<forall>w \<in> set n2. plain_warning w"
    by blast
  then have c: "validateCSS L html (validateStructure html ([], [])) = Some (Inr (?E, n1 @ n2))"
    unfolding error_findings_def s by simp
  have i: "validateImages html (?E, n1 @ n2) = (?E, n1 @ n2 @ ?I)"
    unfolding image_findings_def by (simp add: validateImages_eq)
  from validateCompatibility_eq [of html ?E "n1 @ n2 @ ?I"] obtain n3 where
    k: "validateCompatibility html (?E, n1 @ n2 @ ?I) = (?E, n1 @ n2 @ ?I @ n3)"
    and p3: "\<forall>w \<in> set n3. plain_warning w"
    by auto
  from validateAccessibility_eq [of html ?E "n1 @ n2 @ ?I @ n3"] obtain n4 where
    a: "validateAccessibility html (?E, n1 @ n2 @ ?I @ n3) = (?E, n1 @ n2 @ ?I @ n3 @ n4)"
    and p4: "\<forall>w \<in> set n4. plain_warning w"
    by auto
  have "validate L html =
      Some (Inr \<lparr>isValid = (?E = []), errors = ?E @ (n1 @ n2) @ ?I @ (n3 @ n4),
             warnings = (n1 @ n2) @ ?I @ (n3 @ n4),
             score = calculateCompatibilityScore ?E ((n1 @ n2) @ ?I @ (n3 @ n4))\<rparr>)"
    by (simp add: validate_def c i k a)
  moreover have "\<forall>w \<in> set (n1 @ n2). plain_warning w" "\<forall>w \<in> set (n3 @ n4). plain_warning w"
    using p1 p2 p3 p4 by auto
  ultimately show ?thesis
    by blast
qed

lemma validate_throws:
  assumes "width_loop html [] = Some widths" and "maxWidth_of L widths = Inl e"
  shows "validate L html = Some (Inl e)"
proof -
  obtain es ws where "validateStructure html ([], []) = (es, ws)"
    by (cases "validateStructure html ([], [])")
  with validateCSS_throws [OF assms, of es ws] show ?thesis
    by (simp add: validate_def)
qed

text \<open>What a returned result is made of.\<close>

lemma validate_result:
  assumes "validate L h = Some (Inr r)"
  shows "\<exists>widths m pre post. width_loop h [] = Some widths \<and> maxWidth_of L widths = Inr m
         \<and> r = \<lparr>isValid = (error_findings h m = []),
                  errors = error_findings h m @ pre @ image_findings h @ post,
                  warnings = pre @ image_findings h @ post,
                  score = calculateCompatibilityScore (error_findings h m)
                    (pre @ image_findings h @ post)\<rparr>
         \<and> (\<forall>w \<in> set pre. plain_warning w) \<and> (\<forall>w \<in> set post. plain_warning w)"
proof -
  obtain widths where w: "width_loop h [] = Some widths"
    using width_loop_returns [of h "[]"] by auto
  show ?thesis
  proof (cases "maxWidth_of L widths")
    case (Inl e)
    from validate_throws [OF w Inl] assms show ?thesis
      by simp
  next
    case (Inr m)
    from validate_decomp [OF w Inr] obtain pre post where
      v: "validate L h =
           Some (Inr \<lparr>isValid = (error_findings h m = []),
                  errors = error_findings h m @ pre @ image_findings h @ post,
                  warnings = pre @ image_findings h @ post,
                  score = calculateCompatibilityScore (error_findings h m)
                    (pre @ image_findings h @ post)\<rparr>)"
      and p: "\<forall>w \<in> set pre. plain_warning w" "\<forall>w \<in> set post. plain_warning w"
      by (elim exE conjE) (rule that)
    from v assms have "r = \<lparr>isValid = (error_findings h m = []),
                  errors = error_findings h m @ pre @ image_findings h @ post,
                  warnings = pre @ image_findings h @ post,
                  score = calculateCompatibilityScore (error_findings h m)
                    (pre @ image_findings h @ post)\<rparr>"
      by simp
    with w Inr p show ?thesis
      by (intro exI [of _ widths] exI [of _ m] exI [of _ pre] exI [of _ post] conjI)
  qed
qed

text \<open>The validator returns a result when the widths fit in one call.\<close>

lemma validate_returns:
  assumes "width_loop h [] = Some widths" and "length widths \<le> L"
  shows "\<exists>r. validate L h = Some (Inr r)"
proof -
  from assms(2) have "\<exists>m. maxWidth_of L widths = Inr m"
    by (simp add: maxWidth_of_def)
  then obtain m where m: "maxWidth_of L widths = Inr m"
    by (elim exE) (rule that)
  from validate_decomp [OF assms(1) m] show ?thesis
    by blast
qed

lemmas error_finding_defs =
  table_layout_error_def javascript_error_def external_stylesheet_error_def style_tag_error_def
  max_width_error_def

lemma error_types:
  "type table_layout_error = Error" "type javascript_error = Error"
  "type external_stylesheet_error = Error" "type style_tag_error = Error"
  "type (max_width_error m) = Error"
  by (simp_all add: error_finding_defs)

lemma error_findings_types: "\<forall>e \<in> set (error_findings h m). type e = Error"
  unfolding error_findings_def by (auto simp: error_types)

lemma image_findings_types:
  "\<forall>w \<in> set (image_findings h). type w = Warning \<and> prefix ''Image '' (message w)"
  unfolding image_findings_def using image_warnings by blast

lemma validate_shape:
  assumes "validate L h = Some (Inr r)"
  shows "\<exists>E W. errors r = E @ W \<and> warnings r = W \<and> isValid r = (E = [])
           \<and> score r = calculateCompatibilityScore E W
           \<and> (\<forall>e \<in> set E. type e = Error) \<and> (\<forall>w \<in> set W. type w = Warning)"
proof -
  from validate_result [OF assms] obtain widths m pre post where
    r: "r = \<lparr>isValid = (error_findings h m = []),
                  errors = error_findings h m @ pre @ image_findings h @ post,
                  warnings = pre @ image_findings h @ post,
                  score = calculateCompatibilityScore (error_findings h m)
                    (pre @ image_findings h @ post)\<rparr>"
    and p: "\<forall>w \<in> set pre. plain_warning w" "\<forall>w \<in> set post. plain_warning w"
    by (elim exE conjE) (rule that)
  let ?E = "error_findings h m"
  let ?W = "pre @ image_findings h @ post"
  have W: "\<forall>w \<in> set ?W. type w = Warning"
    using image_findings_types [of h] p by (auto simp: plain_warning_def)
  have "errors r = ?E @ ?W \<and> warnings r = ?W \<and> isValid r = (?E = [])
           \<and> score r = calculateCompatibilityScore ?E ?W"
    unfolding r by simp
  with error_findings_types [of h m] W show ?thesis
    by blast
qed

text \<open>The findings of type \<open>Error\<close> of a result, in the order they were pushed.\<close>

lemma validate_error_findings:
  assumes "validate L h = Some (Inr r)"
  shows "\<exists>widths m. width_loop h [] = Some widths \<and> maxWidth_of L widths = Inr m
         \<and> filter (\<lambda>f. type f = Error) (errors r) = error_findings h m
         \<and> isValid r = (filter (\<lambda>f. type f = Error) (errors r) = [])"
proof -
  from validate_result [OF assms] obtain widths m pre post where
    w: "width_loop h [] = Some widths" and m: "maxWidth_of L widths = Inr m"
    and r: "r = \<lparr>isValid = (error_findings h m = []),
                  errors = error_findings h m @ pre @ image_findings h @ post,
                  warnings = pre @ image_findings h @ post,
                  score = calculateCompatibilityScore (error_findings h m)
                    (pre @ image_findings h @ post)\<rparr>"
    and p: "\<forall>w \<in> set pre. plain_warning w" "\<forall>w \<in> set post. plain_warning w"
    by (elim exE conjE) (rule that)
  let ?E = "error_findings h m"
  let ?W = "pre @ image_findings h @ post"
  have W: "\<forall>w \<in> set ?W. type w = Warning"
    using image_findings_types [of h] p by (auto simp: plain_warning_def)
  have f: "filter (\<lambda>f. type f = Error) (?E @ ?W) = ?E"
    using error_findings_types [of h m] W by (auto simp: filter_empty_conv)
  have e: "errors r = ?E @ ?W" and v: "isValid r = (?E = [])"
    unfolding r by simp_all
  have fe: "filter (\<lambda>f. type f = Error) (errors r) = ?E"
    unfolding e by (rule f)
  have "isValid r = (filter (\<lambda>f. type f = Error) (errors r) = [])"
    unfolding fe by (rule v)
  with w m fe show ?thesis
    by (intro exI [of _ widths] exI [of _ m] conjI)
qed

lemma error_findings_distinct:
  "table_layout_error \<noteq> external_stylesheet_error"
  "javascript_error \<noteq> external_stylesheet_error"
  "style_tag_error \<noteq> external_stylesheet_error"
  "max_width_error m \<noteq> external_stylesheet_error"
  by (simp_all add: error_finding_defs finding_def)

lemma count_list_filter: "P x \<Longrightarrow> count_list (filter P xs) x = count_list xs x"
  by (induction xs) auto

lemma digit_char_digit: "d < 10 \<Longrightarrow> digit_char d \<in> set ''0123456789''"
  unfolding digit_char_def by (rule nth_mem) simp

lemma nat_toString_digits: "set (nat_toString n) \<subseteq> set ''0123456789''"
proof (induction n rule: nat_toString.induct)
  case (1 n)
  show ?case
  proof (cases "n < 10")
    case True
    then show ?thesis
      using digit_char_digit [of n] by (subst nat_toString.simps) simp
  next
    case False
    have "n mod 10 < 10"
      by simp
    with False 1 digit_char_digit [of "n mod 10"] show ?thesis
      by (subst nat_toString.simps) simp
  qed
qed

lemma int_toString_one_line: "CHR 0x0A \<notin> set (int_toString i)"
  using nat_toString_digits [of "nat i"] nat_toString_digits [of "nat (- i)"]
  by (auto simp: int_toString_def)

lemma nat_toString_one_line: "CHR 0x0A \<notin> set (nat_toString n)"
  using nat_toString_digits [of n] by auto

section \<open>Numbers below \<open>2 ^ 53\<close> are exact\<close>

lemma bit_length_le: "bit_length n \<le> k \<longleftrightarrow> n < 2 ^ k"
proof (induction k arbitrary: n)
  case 0
  show ?case
    by (subst bit_length.simps) simp
next
  case (Suc k)
  have "n div 2 < 2 ^ k \<longleftrightarrow> n < 2 * 2 ^ k"
    by linarith
  with Suc [of "n div 2"] show ?case
    by (subst bit_length.simps) simp
qed

lemma to_double_exact: "n < 2 ^ 53 \<Longrightarrow> to_double n = Finite n"
  by (simp add: to_double_def bit_length_le)

lemma to_double_large:
  assumes "\<not> n < 2 ^ 53" and "to_double n = Finite v"
  shows "2 ^ 53 \<le> v"
proof -
  define e where "e = bit_length n - 53"
  define q where "q = n div 2 ^ e"
  define m where "m = (if n mod 2 ^ e > 2 ^ (e - 1) \<or> (n mod 2 ^ e = 2 ^ (e - 1) \<and> odd q)
    then q + 1 else q)"
  from assms(1) have b: "\<not> bit_length n \<le> 53"
    by (simp add: bit_length_le)
  then have e: "1 \<le> e" and be: "bit_length n = e + 53"
    unfolding e_def by simp_all
  have "\<not> bit_length n \<le> e + 52"
    unfolding be by simp
  then have "2 ^ (e + 52) \<le> n"
    by (simp add: bit_length_le)
  then have "(2 ^ 52 * 2 ^ e) div 2 ^ e \<le> n div 2 ^ e"
    by (intro div_le_mono) (simp add: power_add mult.commute)
  then have q: "(2 :: nat) ^ 52 \<le> q"
    unfolding q_def by simp
  then have mq: "2 ^ 52 \<le> m"
    unfolding m_def by simp
  from assms(2) b have "v = m * 2 ^ e"
    unfolding to_double_def m_def q_def e_def by (auto simp: Let_def split: if_splits)
  moreover have pe: "(2 :: nat) ^ 1 \<le> 2 ^ e"
    using e by (intro power_increasing) simp_all
  have "(2 :: nat) ^ 52 * 2 ^ 1 \<le> m * 2 ^ e"
    using mq pe by (rule mult_le_mono)
  ultimately show ?thesis
    by simp
qed

lemma search_decimal_exact: "x < 2 ^ 53 \<Longrightarrow> search_decimal x p = x"
proof (induction p)
  case 0
  show ?case
    by (subst search_decimal.simps) simp
next
  case (Suc p)
  define d :: nat where "d = 10 ^ Suc p"
  define lo where "lo = (x div d) * d"
  have d: "0 < d"
    unfolding d_def by simp
  have "x = lo + x mod d"
    unfolding lo_def by simp
  moreover have "x mod d < d"
    using d by simp
  ultimately have lo: "lo \<le> x" and hi: "x < lo + d"
    by linarith+
  from lo Suc.prems have "to_double lo = Finite lo"
    by (intro to_double_exact) simp
  then have ok_lo: "to_double lo = Finite x \<Longrightarrow> lo = x"
    by simp
  have ok_hi: "to_double (lo + d) \<noteq> Finite x"
  proof (cases "lo + d < 2 ^ 53")
    case True
    with hi show ?thesis
      by (simp add: to_double_exact)
  next
    case False
    show ?thesis
    proof
      assume "to_double (lo + d) = Finite x"
      from to_double_large [OF False this] Suc.prems show False
        by simp
    qed
  qed
  have r: "search_decimal x (Suc p - 1) = x"
    using Suc by simp
  show ?case
    apply (subst search_decimal.simps)
    unfolding Let_def d_def [symmetric] lo_def [symmetric]
    using ok_lo ok_hi r by auto
qed

lemma nat_toString_length: "n < 10 ^ Suc k \<Longrightarrow> length (nat_toString n) \<le> Suc k"
proof (induction k arbitrary: n)
  case 0
  then show ?case
    by (subst nat_toString.simps) simp
next
  case (Suc k)
  show ?case
  proof (cases "n < 10")
    case True
    then show ?thesis
      by (subst nat_toString.simps) simp
  next
    case False
    from Suc.prems have "n div 10 < 10 ^ Suc k"
      by simp
    from Suc.IH [OF this] False show ?thesis
      by (subst nat_toString.simps) simp
  qed
qed

text \<open>A double below \<open>2 ^ 53\<close> is rendered with all its decimal digits.\<close>

lemma Number_toString_exact:
  assumes "n < 2 ^ 53"
  shows "Number_toString (Finite n) = nat_toString n"
proof -
  from assms have "n < 10 ^ Suc 20"
    by simp
  then have "length (nat_toString n) \<le> 21"
    using nat_toString_length [of n 20] by simp
  then show ?thesis
    by (simp add: Number_toString_def shortest_decimal_def search_decimal_exact [OF assms])
qed

lemma Number_toString_MAX_WIDTH: "Number_toString (Finite MAX_WIDTH) = ''600''"
proof -
  have "nat_toString 600 = ''600''"
    by code_simp
  then show ?thesis
    by (simp add: MAX_WIDTH_def Number_toString_exact)
qed

text \<open>\<^verbatim>\<open>Math.max\<close> of a non-empty array is one of its elements, and no element is above it.\<close>

lemma num_max_cases: "num_max a b = a \<or> num_max a b = b"
  by (cases a; cases b) (auto simp: max_def)

lemma num_max_absorb: "num_max a (num_max a b) = num_max a b" "num_max b (num_max a b) = num_max a b"
  by (cases a; cases b; simp)+

lemma num_max_trans: "num_max a b = b \<Longrightarrow> num_max b c = c \<Longrightarrow> num_max a c = c"
  by (cases a; cases b; cases c) (auto simp: max_def split: if_splits)

lemma fold_num_max:
  "fold num_max xs a \<in> set (a # xs)
   \<and> (\<forall>v \<in> set (a # xs). num_max v (fold num_max xs a) = fold num_max xs a)"
proof (induction xs arbitrary: a)
  case Nil
  show ?case
    by (cases a) simp_all
next
  case (Cons x xs)
  let ?m = "fold num_max xs (num_max x a)"
  from Cons [of "num_max x a"] have m: "?m \<in> set (num_max x a # xs)"
    and u: "\<forall>v \<in> set (num_max x a # xs). num_max v ?m = ?m"
    by simp_all
  from u have t: "num_max (num_max x a) ?m = ?m"
    by simp
  have "num_max x ?m = ?m" "num_max a ?m = ?m"
    using num_max_trans [OF num_max_absorb(1) t] num_max_trans [OF num_max_absorb(2) t]
    by simp_all
  with m u num_max_cases [of x a] show ?case
    by auto
qed

lemma maxWidth_of_greatest:
  assumes "maxWidth_of L widths = Inr m"
  shows "if set widths = {} then m = Finite 0
         else m \<in> set widths \<and> (\<forall>v \<in> set widths. num_max v m = m)"
proof (cases widths)
  case Nil
  with assms show ?thesis
    by (simp add: maxWidth_of_def)
next
  case (Cons w ws)
  with assms have "m = fold num_max ws w"
    by (simp add: maxWidth_of_def split: if_splits)
  with fold_num_max [of ws w] Cons show ?thesis
    by simp
qed

section \<open>The occurrences of the width pattern\<close>

lemma strip_ci_shape: "strip_ci p t = Some r \<Longrightarrow> \<exists>w. t = w @ r \<and> map ascii_lower w = p"
proof (induction p t rule: strip_ci.induct)
  case (1 s)
  then show ?case
    by simp
next
  case (2 p ps)
  then show ?case
    by simp
next
  case (3 p ps c cs)
  from "3.prems" have c: "ascii_lower c = p" and "strip_ci ps cs = Some r"
    by (auto split: if_splits)
  with "3.IH" obtain w where "cs = w @ r" "map ascii_lower w = ps"
    by blast
  with c have "c # cs = (c # w) @ r \<and> map ascii_lower (c # w) = p # ps"
    by simp
  then show ?case
    by (rule exI [of _ "c # w"])
qed

lemma skip_opt_shape: "\<exists>q. u = q @ skip_opt P u \<and> (q = [] \<or> (\<exists>x. q = [x] \<and> P x))"
  by (cases u) auto

lemma skip_opt_ci_shape: "\<exists>a. u = a @ skip_opt_ci p u \<and> (a = [] \<or> map ascii_lower a = p)"
proof (cases "strip_ci p u")
  case None
  then show ?thesis
    by (simp add: skip_opt_ci_def)
next
  case (Some r)
  with strip_ci_shape [OF Some] show ?thesis
    by (auto simp: skip_opt_ci_def)
qed

text \<open>The text of a match of the width pattern, part by part.\<close>

lemma width_match_here_shape:
  assumes "width_match_here t = Some (d, rest)"
  shows "\<exists>w sp1 c sp2 q1 px q2.
           t = w @ sp1 @ [c] @ sp2 @ q1 @ d @ px @ q2 @ rest
         \<and> map ascii_lower w = ''width''
         \<and> (\<forall>x \<in> set sp1. is_space x) \<and> (c = CHR ''='' \<or> c = CHR '':'')
         \<and> (\<forall>x \<in> set sp2. is_space x)
         \<and> (q1 = [] \<or> (\<exists>x. q1 = [x] \<and> is_quote x))
         \<and> d \<noteq> [] \<and> (\<forall>x \<in> set d. is_digit x)
         \<and> (px = [] \<or> map ascii_lower px = ''px'')
         \<and> (q2 = [] \<or> (\<exists>x. q2 = [x] \<and> is_quote x))"
proof -
  from assms obtain s1 where s1: "strip_ci ''width'' t = Some s1"
    by (cases "strip_ci ''width'' t") (simp_all add: width_match_here_def)
  from assms s1 obtain c s2 where dw: "dropWhile is_space s1 = c # s2"
    by (cases "dropWhile is_space s1") (simp_all add: width_match_here_def)
  from assms s1 dw have c: "c = CHR ''='' \<or> c = CHR '':''"
    by (simp add: width_match_here_def split: if_splits)
  let ?A = "takeWhile is_digit (skip_opt is_quote (dropWhile is_space s2))"
  let ?B = "skip_opt is_quote (skip_opt_ci ''px''
              (dropWhile is_digit (skip_opt is_quote (dropWhile is_space s2))))"
  from assms c have m: "(if ?A = [] then None else Some (?A, ?B)) = Some (d, rest)"
    using s1 dw by (simp add: width_match_here_def Let_def)
  have dn': "?A \<noteq> []"
  proof
    assume "?A = []"
    with m have "None = Some (d, rest)"
      by (simp only: if_True simp_thms)
    then show False
      by (simp only: option.distinct)
  qed
  with m have "Some (?A, ?B) = Some (d, rest)"
    by (simp only: if_False)
  then have ab: "?A = d" "?B = rest"
    by (simp_all only: option.inject prod.inject)
  have d: "d = ?A"
    using ab(1) by (rule sym)
  have r: "rest = ?B"
    using ab(2) by (rule sym)
  from dn' have dn: "d \<noteq> []"
    unfolding d .
  define u2 where "u2 = dropWhile is_space s2"
  define s3 where "s3 = skip_opt is_quote u2"
  define u4 where "u4 = dropWhile is_digit s3"
  define u5 where "u5 = skip_opt_ci ''px'' u4"
  from strip_ci_shape [OF s1] obtain w where w: "t = w @ s1" "map ascii_lower w = ''width''"
    by (elim exE conjE) (rule that)
  define sp1 where "sp1 = takeWhile is_space s1"
  define sp2 where "sp2 = takeWhile is_space s2"
  have e1: "s1 = sp1 @ c # s2"
    unfolding sp1_def using takeWhile_dropWhile_id [of is_space s1] by (simp only: dw)
  have e2: "s2 = sp2 @ u2"
    unfolding u2_def sp2_def by simp
  have "\<exists>q. u2 = q @ s3 \<and> (q = [] \<or> (\<exists>x. q = [x] \<and> is_quote x))"
    unfolding s3_def by (rule skip_opt_shape)
  then obtain q1 where q1: "u2 = q1 @ s3" "q1 = [] \<or> (\<exists>x. q1 = [x] \<and> is_quote x)"
    by (elim exE conjE) (rule that)
  have e3: "s3 = d @ u4"
    unfolding u4_def d s3_def u2_def by simp
  have "\<exists>a. u4 = a @ u5 \<and> (a = [] \<or> map ascii_lower a = ''px'')"
    unfolding u5_def by (rule skip_opt_ci_shape)
  then obtain px where px: "u4 = px @ u5" "px = [] \<or> map ascii_lower px = ''px''"
    by (elim exE conjE) (rule that)
  have "rest = skip_opt is_quote u5"
    unfolding r u5_def u4_def s3_def u2_def ..
  then have "\<exists>q. u5 = q @ rest \<and> (q = [] \<or> (\<exists>x. q = [x] \<and> is_quote x))"
    using skip_opt_shape [of u5 is_quote] by (simp only:)
  then obtain q2 where q2: "u5 = q2 @ rest" "q2 = [] \<or> (\<exists>x. q2 = [x] \<and> is_quote x)"
    by (elim exE conjE) (rule that)
  have t: "t = w @ sp1 @ [c] @ sp2 @ q1 @ d @ px @ q2 @ rest"
    unfolding w(1) e1 e2 q1(1) e3 px(1) q2(1) by simp
  have sp: "\<forall>x \<in> set sp1. is_space x" "\<forall>x \<in> set sp2. is_space x"
    unfolding sp1_def sp2_def by (auto dest: set_takeWhileD)
  have dd: "\<forall>x \<in> set d. is_digit x"
    unfolding d by (auto dest: set_takeWhileD)
  show ?thesis
    by (intro exI [of _ w] exI [of _ sp1] exI [of _ c] exI [of _ sp2] exI [of _ q1]
        exI [of _ px] exI [of _ q2] conjI t w(2) sp c q1(2) dn dd px(2) q2(2))
qed

lemma ascii_lower_w: "ascii_lower x = CHR ''w'' \<Longrightarrow> x = CHR ''w'' \<or> x = CHR ''W''"
  by (cases x) (auto simp: ascii_lower_def set_bit5_def split: if_splits)

lemma strip_ci_width_head:
  "ascii_lower x \<noteq> CHR ''w'' \<Longrightarrow> width_match_here (x # xs) = None"
  by (simp add: width_match_here_def)

text \<open>
  After its first character the text of a match holds no \<open>w\<close>, so that no other match
  starts inside it.
\<close>

lemma width_match_here_text:
  assumes "width_match_here t = Some (d, rest)"
  shows "\<exists>x M. t = x # M @ rest \<and> (\<forall>y \<in> set M. ascii_lower y \<noteq> CHR ''w'')"
proof -
  from width_match_here_shape [OF assms] obtain w sp1 c sp2 q1 px q2 where
    t: "t = w @ sp1 @ [c] @ sp2 @ q1 @ d @ px @ q2 @ rest"
    and w: "map ascii_lower w = ''width''"
    and sp: "\<forall>x \<in> set sp1. is_space x" "\<forall>x \<in> set sp2. is_space x"
    and c: "c = CHR ''='' \<or> c = CHR '':''"
    and q: "q1 = [] \<or> (\<exists>x. q1 = [x] \<and> is_quote x)" "q2 = [] \<or> (\<exists>x. q2 = [x] \<and> is_quote x)"
    and d: "\<forall>x \<in> set d. is_digit x"
    and px: "px = [] \<or> map ascii_lower px = ''px''"
    by (elim exE conjE) (rule that)
  have nw: "ascii_lower y \<noteq> CHR ''w''"
    if "is_space y \<or> is_digit y \<or> is_quote y \<or> y = CHR ''='' \<or> y = CHR '':''" for y
  proof
    assume "ascii_lower y = CHR ''w''"
    then have "y = CHR ''w'' \<or> y = CHR ''W''"
      by (rule ascii_lower_w)
    with that show False
      by (auto simp: is_space_def is_digit_def is_quote_def)
  qed
  from w obtain w0 w' where w': "w = w0 # w'" "map ascii_lower w' = ''idth''"
    by (cases w) auto
  have "\<forall>y \<in> set w'. ascii_lower y \<noteq> CHR ''w''"
  proof
    fix y assume "y \<in> set w'"
    then have "ascii_lower y \<in> set (map ascii_lower w')"
      by simp
    then show "ascii_lower y \<noteq> CHR ''w''"
      unfolding w'(2) by auto
  qed
  moreover have "\<forall>y \<in> set px. ascii_lower y \<noteq> CHR ''w''"
  proof
    fix y assume y: "y \<in> set px"
    then have "px \<noteq> []"
      by auto
    with px have "map ascii_lower px = ''px''"
      by simp
    moreover from y have "ascii_lower y \<in> set (map ascii_lower px)"
      by simp
    ultimately show "ascii_lower y \<noteq> CHR ''w''"
      by auto
  qed
  moreover have "\<forall>y \<in> set (sp1 @ [c] @ sp2 @ q1 @ d @ q2). ascii_lower y \<noteq> CHR ''w''"
    using sp c q d nw by auto
  ultimately have "\<forall>y \<in> set (w' @ sp1 @ [c] @ sp2 @ q1 @ d @ px @ q2). ascii_lower y \<noteq> CHR ''w''"
    by auto
  moreover have "t = w0 # (w' @ sp1 @ [c] @ sp2 @ q1 @ d @ px @ q2) @ rest"
    unfolding t w'(1) by simp
  ultimately show ?thesis
    by (intro exI [of _ w0] exI [of _ "w' @ sp1 @ [c] @ sp2 @ q1 @ d @ px @ q2"] conjI)
qed

lemma regex_exec_None: "regex_exec m t = None \<Longrightarrow> suffix u t \<Longrightarrow> m u = None"
proof (induction t)
  case Nil
  then show ?case
    by simp
next
  case (Cons c cs)
  from Cons.prems(1) have 1: "m (c # cs) = None" and 2: "regex_exec m cs = None"
    by (auto split: option.splits)
  from Cons.prems(2) have "u = c # cs \<or> suffix u cs"
    by (simp only: suffix_Cons)
  with 1 2 Cons.IH show ?case
    by auto
qed

lemma regex_exec_Some:
  "regex_exec m t = Some x \<Longrightarrow>
     \<exists>u. suffix u t \<and> m u = Some x \<and> (\<forall>u'. suffix u' t \<and> length u < length u' \<longrightarrow> m u' = None)"
proof (induction t)
  case Nil
  then have "suffix [] ([] :: string) \<and> m [] = Some x
      \<and> (\<forall>u'. suffix u' ([] :: string) \<and> length ([] :: string) < length u' \<longrightarrow> m u' = None)"
    by simp
  then show ?case
    by (rule exI [of _ "[]"])
next
  case (Cons c cs)
  show ?case
  proof (cases "m (c # cs)")
    case (Some y)
    with Cons.prems have "m (c # cs) = Some x"
      by simp
    moreover have "\<forall>u'. suffix u' (c # cs) \<and> length (c # cs) < length u' \<longrightarrow> m u' = None"
      by (auto dest: suffix_length_le)
    ultimately show ?thesis
      by (intro exI [of _ "c # cs"]) simp
  next
    case None
    with Cons.prems have r: "regex_exec m cs = Some x"
      by simp
    from Cons.IH [OF r] obtain u where u: "suffix u cs" "m u = Some x"
      and l: "\<forall>u'. suffix u' cs \<and> length u < length u' \<longrightarrow> m u' = None"
      by (elim exE conjE) (rule that)
    have "m u' = None" if "suffix u' (c # cs)" "length u < length u'" for u'
    proof -
      from that(1) have "u' = c # cs \<or> suffix u' cs"
        by (simp only: suffix_Cons)
      with None l that(2) show ?thesis
        by auto
    qed
    with u show ?thesis
      by (intro exI [of _ u]) (simp add: suffix_ConsI)
  qed
qed

lemma width_match_no_overlap:
  assumes "width_match_here u = Some (d, rest)"
    and "suffix u' u" and "length rest < length u'" and "length u' < length u"
  shows "width_match_here u' = None"
proof -
  from width_match_here_text [OF assms(1)] obtain x M where
    u: "u = x # M @ rest" and M: "\<forall>y \<in> set M. ascii_lower y \<noteq> CHR ''w''"
    by (elim exE conjE) (rule that)
  from assms(2,4) have "suffix u' (M @ rest)"
    unfolding u by (auto simp: suffix_Cons)
  then have "suffix u' rest \<or> (\<exists>xs'. u' = xs' @ rest \<and> suffix xs' M)"
    by (simp only: suffix_append)
  moreover have "\<not> suffix u' rest"
    using assms(3) by (auto dest: suffix_length_le)
  ultimately obtain xs' where xs': "u' = xs' @ rest" "suffix xs' M"
    by auto
  with assms(3) obtain y ys where y: "xs' = y # ys"
    by (cases xs') auto
  with xs'(2) have "y \<in> set M"
    by (auto simp: suffix_def)
  with M have "ascii_lower y \<noteq> CHR ''w''"
    by simp
  then show ?thesis
    unfolding xs'(1) y by (simp add: strip_ci_width_head)
qed

lemma parseInt_digits:
  assumes "d \<noteq> []" and "\<forall>x \<in> set d. is_digit x"
  shows "\<exists>n. parseInt d = Some n"
proof -
  from assms(2) have tw: "takeWhile is_digit d = d"
    by (simp add: takeWhile_eq_all_conv)
  show ?thesis
    unfolding parseInt_def Let_def tw using assms(1) by simp
qed

lemma width_match_here_parses:
  assumes "width_match_here u = Some (d, rest)"
  shows "\<exists>n. parseInt d = Some n"
proof -
  from width_match_here_shape [OF assms] have "d \<noteq> [] \<and> (\<forall>x \<in> set d. is_digit x)"
    by (elim exE conjE) (rule conjI)
  then show ?thesis
    by (elim conjE) (rule parseInt_digits)
qed

lemma width_occurrences_step:
  assumes ex: "regex_exec width_match_here t = Some (d, rest)" and n: "parseInt d = Some n"
  shows "width_occurrences t = insert n (width_occurrences rest)"
proof -
  from regex_exec_Some [OF ex] obtain u where u: "suffix u t" "width_match_here u = Some (d, rest)"
    and l: "\<forall>u'. suffix u' t \<and> length u < length u' \<longrightarrow> width_match_here u' = None"
    by (elim exE conjE) (rule that)
  from width_match_here_text [OF u(2)] have ru: "suffix rest u"
    by (auto simp: suffix_def)
  from ru u(1) have rt: "suffix rest t"
    by (rule suffix_order.trans)
  have lr: "length rest < length u"
    using u(2) by (rule width_match_here_shorter)
  show ?thesis
  proof (intro set_eqI iffI)
    fix k assume "k \<in> width_occurrences t"
    then obtain u' d' rest' where u': "suffix u' t" "width_match_here u' = Some (d', rest')"
      "parseInt d' = Some k"
      unfolding width_occurrences_def by blast
    consider "length u < length u'" | "length u' = length u"
      | "length rest < length u'" "length u' < length u" | "length u' \<le> length rest"
      by linarith
    then show "k \<in> insert n (width_occurrences rest)"
    proof cases
      case 1
      with l u'(1,2) show ?thesis
        by auto
    next
      case 2
      with u(1) u'(1) have "suffix u' u" "suffix u u'"
        by (auto intro: suffix_length_suffix)
      then have "u' = u"
        by (rule suffix_order.antisym)
      with u(2) u'(2,3) n show ?thesis
        by simp
    next
      case 3
      with u(1) u'(1) have "suffix u' u"
        by (auto intro: suffix_length_suffix)
      with 3 u(2) have "width_match_here u' = None"
        by (intro width_match_no_overlap [of u d rest u']) auto
      with u'(2) show ?thesis
        by simp
    next
      case 4
      with rt u'(1) have "suffix u' rest"
        by (auto intro: suffix_length_suffix)
      with u'(2,3) have "k \<in> width_occurrences rest"
        unfolding width_occurrences_def by blast
      then show ?thesis
        by simp
    qed
  next
    fix k assume "k \<in> insert n (width_occurrences rest)"
    then consider "k = n" | "k \<in> width_occurrences rest"
      by auto
    then show "k \<in> width_occurrences t"
    proof cases
      case 1
      with u n show ?thesis
        unfolding width_occurrences_def by blast
    next
      case 2
      then obtain u' d' rest' where u': "suffix u' rest" "width_match_here u' = Some (d', rest')"
        "parseInt d' = Some k"
        unfolding width_occurrences_def by blast
      from u'(1) rt have "suffix u' t"
        by (rule suffix_order.trans)
      with u'(2,3) show ?thesis
        unfolding width_occurrences_def by blast
    qed
  qed
qed

text \<open>The loop collects the value of every occurrence, and nothing else.\<close>

lemma width_loop_occurrences:
  "width_loop t acc = Some ws \<Longrightarrow> set ws = set acc \<union> width_occurrences t"
proof (induction t arbitrary: acc ws rule: length_induct)
  case (1 t)
  show ?case
  proof (cases "regex_exec width_match_here t")
    case None
    then have "width_occurrences t = {}"
      unfolding width_occurrences_def using regex_exec_None [OF None] by auto
    moreover from None "1.prems" have "ws = acc"
      by (subst (asm) width_loop.simps) simp
    ultimately show ?thesis
      by simp
  next
    case (Some x)
    obtain d rest where x: "x = (d, rest)"
      by (cases x)
    from Some x have ex: "regex_exec width_match_here t = Some (d, rest)"
      by simp
    have lt: "length rest < length t"
      using ex regex_exec_shorter [of width_match_here t d rest] width_match_here_shorter
      by blast
    from regex_exec_Some [OF ex] obtain u where "width_match_here u = Some (d, rest)"
      by (elim exE conjE) (rule that)
    from width_match_here_parses [OF this] obtain n where n: "parseInt d = Some n"
      by (elim exE) (rule that)
    from "1.prems" ex n have "width_loop rest (push acc n) = Some ws"
      by (subst (asm) width_loop.simps) simp
    with "1.IH" lt have "set ws = set (push acc n) \<union> width_occurrences rest"
      by blast
    with width_occurrences_step [OF ex n] show ?thesis
      by (simp add: push_def)
  qed
qed

section \<open>The findings of the image check in a result\<close>






text \<open>
  The outcome does not depend on the bound of the engine as long as the widths fit in
  one call.
\<close>

lemma validate_limit:
  assumes "width_loop h [] = Some widths" and "length widths \<le> L" and "length widths \<le> L'"
  shows "validate L h = validate L' h"
proof -
  from assms(2,3) have "maxWidth_of L widths = maxWidth_of L' widths"
    by (simp add: maxWidth_of_def)
  moreover from assms(2) have "\<exists>m. maxWidth_of L widths = Inr m"
    by (simp add: maxWidth_of_def)
  ultimately obtain m where "maxWidth_of L widths = Inr m" "maxWidth_of L' widths = Inr m"
    by auto
  then show ?thesis
    using assms(1)
    by (simp add: validate_def validateCSS_def Let_def split: prod.splits)
qed

text \<open>The widths of an input made of copies of \<open>width:1\<close> and a space.\<close>

lemma width_loop_skip:
  "width_match_here (c # t) = None \<Longrightarrow> width_loop (c # t) acc = width_loop t acc"
  by (subst width_loop.simps, subst (2) width_loop.simps) simp

lemma width_loop_copies:
  "width_loop (concat (replicate n ''width:1 '')) acc = Some (acc @ replicate n (Finite 1))"
proof (induction n arbitrary: acc)
  case 0
  show ?case
    by (subst width_loop.simps) (simp add: width_match_here_def)
next
  case (Suc n)
  let ?t = "concat (replicate n ''width:1 '')"
  have d: "CHR ''1'' \<noteq> CHR '' ''" "is_digit CHR ''1''" "\<not> is_digit CHR '' ''"
    "\<not> is_space CHR '':''" "\<not> is_space CHR ''1''" "\<not> is_quote CHR ''1''"
    "\<not> is_quote CHR '' ''"
    by (simp_all add: is_digit_def is_space_def is_quote_def)
  have l: "ascii_lower CHR ''w'' = CHR ''w''" "ascii_lower CHR ''i'' = CHR ''i''"
    "ascii_lower CHR ''d'' = CHR ''d''" "ascii_lower CHR ''t'' = CHR ''t''"
    "ascii_lower CHR ''h'' = CHR ''h''" "ascii_lower CHR '' '' \<noteq> CHR ''w''"
    "ascii_lower CHR '' '' \<noteq> CHR ''p''"
    by (simp_all add: ascii_lower_def is_ascii_upper_def)
  have m: "width_match_here (''width:1 '' @ ?t) = Some (''1'', CHR '' '' # ?t)"
    by (simp add: width_match_here_def skip_opt_ci_def d l)
  have p: "parseInt ''1'' = Some (Finite 1)"
    by (simp add: parseInt_def d digit_val_def to_double_exact)
  have n: "width_match_here (CHR '' '' # ?t) = None"
    by (simp add: width_match_here_def l)
  have "width_loop (concat (replicate (Suc n) ''width:1 '')) acc
      = width_loop (CHR '' '' # ?t) (push acc (Finite 1))"
    using m p by (subst width_loop.simps) simp
  also have "\<dots> = width_loop ?t (push acc (Finite 1))"
    using n by (rule width_loop_skip)
  also have "\<dots> = Some (push acc (Finite 1) @ replicate n (Finite 1))"
    by (rule Suc)
  finally show ?case
    by (simp add: push_def replicate_app_Cons_same)
qed

section \<open>Evaluating the validator on an example\<close>

text \<open>
  A result computed for the bound \<open>length widths\<close> is the result for every bound that
  the widths fit in.
\<close>

lemma validate_eval:
  assumes "width_loop h [] = Some widths" and "validate (length widths) h = Some (Inr r)"
    and "length widths \<le> L"
  shows "validate L h = Some (Inr r)"
  using validate_limit [OF assms(1) assms(3), of "length widths"] assms(2) by simp

text \<open>The finding of the width check in a result.\<close>

lemma validate_width_error:
  assumes "validate L h = Some (Inr r)"
  shows "\<exists>widths m. width_loop h [] = Some widths \<and> maxWidth_of L widths = Inr m
     \<and> filter (\<lambda>f. type f = Error \<and> prefix ''Maximum width exceeded'' (message f)) (errors r)
         = (if greater_than m 600 then [max_width_error m] else [])"
proof -
  let ?P = "\<lambda>f. prefix ''Maximum width exceeded'' (message f)"
  from validate_error_findings [OF assms] obtain widths m where
    w: "width_loop h [] = Some widths" and m: "maxWidth_of L widths = Inr m"
    and e: "filter (\<lambda>f. type f = Error) (errors r) = error_findings h m"
    by (elim exE conjE) (rule that)
  have p: "\<not> ?P table_layout_error" "\<not> ?P javascript_error" "\<not> ?P external_stylesheet_error"
    "\<not> ?P style_tag_error" "?P (max_width_error m)"
    by (simp_all add: error_finding_defs)
  have "filter (\<lambda>f. type f = Error \<and> ?P f) (errors r)
      = filter ?P (filter (\<lambda>f. type f = Error) (errors r))"
    by simp
  also have "\<dots> = (if greater_than m 600 then [max_width_error m] else [])"
    unfolding e error_findings_def using p by (simp add: MAX_WIDTH_def)
  finally show ?thesis
    using w m by (intro exI [of _ widths] exI [of _ m] conjI)
qed

lemma max_width_error_message:
  "message (max_width_error m)
     = ''Maximum width exceeded: '' @ Number_toString m @ ''px (limit: 600px)''"
  by (simp add: max_width_error_def Number_toString_MAX_WIDTH)

text \<open>
  The number read at a match is the value of its digits when that value is below
  \<open>2 ^ 53\<close>.
\<close>

lemma width_match_here_exact:
  assumes "width_match_here u = Some (d, rest)"
    and "foldl (\<lambda>a c. 10 * a + digit_val c) 0 d < 2 ^ 53"
  shows "parseInt d = Some (Finite (foldl (\<lambda>a c. 10 * a + digit_val c) 0 d))"
proof -
  from width_match_here_shape [OF assms(1)] have "d \<noteq> [] \<and> (\<forall>x \<in> set d. is_digit x)"
    by (elim exE conjE) (rule conjI)
  then have n: "d \<noteq> []" and "\<forall>x \<in> set d. is_digit x"
    by simp_all
  then have tw: "takeWhile is_digit d = d"
    by (simp add: takeWhile_eq_all_conv)
  show ?thesis
    unfolding parseInt_def Let_def tw using n to_double_exact [OF assms(2)] by simp
qed

text \<open>The example inputs of the claims.\<close>

lemma wide_table:
  \<open>width_loop ''<table><tr><td style="width:601px">x</td></tr></table>'' [] = Some [Finite 601]\<close>
  \<open>validate 125000 ''<table><tr><td style="width:601px">x</td></tr></table>'' =
    Some (Inr \<lparr>isValid = False,
      errors = [max_width_error (Finite 601), doctype_warning, document_structure_warning,
        viewport_warning, cellpadding_warning, cellspacing_warning, border_warning],
      warnings = [doctype_warning, document_structure_warning, viewport_warning,
        cellpadding_warning, cellspacing_warning, border_warning], score = 55\<rparr>)\<close>
proof -
  let ?h = \<open>''<table><tr><td style="width:601px">x</td></tr></table>''\<close>
  show w: "width_loop ?h [] = Some [Finite 601]"
    by code_simp
  have "validate (length [Finite 601]) ?h =
    Some (Inr \<lparr>isValid = False,
      errors = [max_width_error (Finite 601), doctype_warning, document_structure_warning,
        viewport_warning, cellpadding_warning, cellspacing_warning, border_warning],
      warnings = [doctype_warning, document_structure_warning, viewport_warning,
        cellpadding_warning, cellspacing_warning, border_warning], score = 55\<rparr>)"
    by code_simp
  from validate_eval [OF w this] show "validate 125000 ?h =
    Some (Inr \<lparr>isValid = False,
      errors = [max_width_error (Finite 601), doctype_warning, document_structure_warning,
        viewport_warning, cellpadding_warning, cellspacing_warning, border_warning],
      warnings = [doctype_warning, document_structure_warning, viewport_warning,
        cellpadding_warning, cellspacing_warning, border_warning], score = 55\<rparr>)"
    by simp
qed

lemma validate_no_width:
  assumes "width_loop h [] = Some []" and "validate 0 h = Some (Inr r)"
  shows "validate L h = Some (Inr r)"
  using validate_eval [OF assms(1), of r L] assms(2) by simp

section \<open>Numbers as JavaScript prints them\<close>

text \<open>
  Three numbers above \<open>2 ^ 53\<close>: the digits of \<open>10 ^ 21\<close> are read exactly and printed
  in exponent notation, and 310 nines are read as \<open>Infinity\<close>.
\<close>

lemma parseInt_1e21:
  \<open>parseInt ''1000000000000000000000'' = Some (Finite 1000000000000000000000)\<close>
proof -
  have tw: \<open>takeWhile is_digit ''1000000000000000000000'' = ''1000000000000000000000''\<close>
    by code_simp
  have dv: \<open>foldl (\<lambda>a c. 10 * a + digit_val c) 0 ''1000000000000000000000''
      = 1000000000000000000000\<close>
    by (simp add: digit_val_def)
  have td: "to_double 1000000000000000000000 = Finite 1000000000000000000000"
    by (simp add: to_double_def Let_def bit_length.simps)
  show ?thesis
    unfolding parseInt_def Let_def tw dv td by simp
qed

lemma Number_toString_1e21:
  \<open>Number_toString (Finite 1000000000000000000000) = ''1e+21''\<close>
proof -
  have n: \<open>nat_toString 1000000000000000000000 = ''1000000000000000000000''\<close>
    by (simp add: nat_toString.simps digit_char_def)
  have l: "length (nat_toString 1000000000000000000000) - 1 = 21"
    by (simp add: nat_toString.simps)
  have sd: "search_decimal 1000000000000000000000 21 = 1000000000000000000000"
    by (simp add: search_decimal.simps to_double_def Let_def bit_length.simps)
  have s: "shortest_decimal 1000000000000000000000 = 1000000000000000000000"
    unfolding shortest_decimal_def l by (rule sd)
  have m: "nat_toString 21 = ''21''"
    by (simp add: nat_toString.simps digit_char_def)
  have lt: \<open>length ''1000000000000000000000'' = 22\<close> "length [CHR ''1''] = 1"
    by simp_all
  show ?thesis
    unfolding Number_toString_def number.case Let_def s n by (simp add: m lt del: list.size)
qed

lemma to_double_Infinity:
  "to_double 9999999999999999999999999999999999999999999999999999999999999999999999999999999999999999999999999999999999999999999999999999999999999999999999999999999999999999999999999999999999999999999999999999999999999999999999999999999999999999999999999999999999999999999999999999999999999999999999999999999999999999999999 = Infinity"
  by (simp add: to_double_def Let_def bit_length.simps)

lemma Number_toString_Infinity: "Number_toString Infinity = ''Infinity''"
  by (simp add: Number_toString_def)

section \<open>The claims\<close>

text \<open>
  In every claim \<open>L\<close> is the number of arguments the engine accepts in the call
  \<open>Math.max(...widths)\<close>; a result \<open>r\<close> of \<open>validate\<close> on \<open>h\<close> is
  \<open>validate L h = Some (Inr r)\<close>.
\<close>

text \<open>
  C1. For every input, the score of the result is
  \<open>100 - 15 * errorCount - 5 * warningCount\<close> clamped to \<open>[0, 100]\<close>, where the counts are
  those of the findings of type \<open>Error\<close> and of type \<open>Warning\<close> in the result; in
  particular the score lies between 0 and 100.
\<close>

theorem score_formula:
  assumes "validate L h = Some (Inr r)"
  shows "score r = max 0 (min 100 (100
            - 15 * int (length (filter (\<lambda>f. type f = Error) (errors r)))
            - 5 * int (length (filter (\<lambda>f. type f = Warning) (errors r)))))
         \<and> 0 \<le> score r \<and> score r \<le> 100"
proof -
  from validate_shape [OF assms] obtain E W where
    r: "errors r = E @ W" "score r = calculateCompatibilityScore E W"
    and E: "\<forall>e \<in> set E. type e = Error" and W: "\<forall>w \<in> set W. type w = Warning"
    by blast
  have "filter (\<lambda>f. type f = Error) (E @ W) = E" "filter (\<lambda>f. type f = Warning) (E @ W) = W"
    using E W by (auto simp: filter_empty_conv)
  then show ?thesis
    using E by (simp add: r calculateCompatibilityScore_def Let_def)
qed

text \<open>
  The table of the second scenario of the specification: one error (the width 601) and
  six warnings give \<open>100 - 15 - 30 = 55\<close>.
\<close>

theorem score_formula_witness:
  \<open>\<exists>r. validate 125000 ''<table><tr><td style="width:601px">x</td></tr></table>'' = Some (Inr r)
     \<and> length (filter (\<lambda>f. type f = Error) (errors r)) = 1
     \<and> length (filter (\<lambda>f. type f = Warning) (errors r)) = 6
     \<and> score r = 55\<close>
proof -
  note v = wide_table(2)
  have t: "type (max_width_error (Finite 601)) = Error" "type doctype_warning = Warning"
    "type document_structure_warning = Warning" "type viewport_warning = Warning"
    "type cellpadding_warning = Warning" "type cellspacing_warning = Warning"
    "type border_warning = Warning"
    by (simp_all add: error_types structure_warning_defs compatibility_warning_defs)
  from score_formula [OF v] v t show ?thesis
    by simp
qed

text \<open>
  C2. For every input, \<open>isValid\<close> holds exactly when no finding of the result has type
  \<open>Error\<close>, that is when the number of findings of type \<open>Error\<close> is zero.
\<close>

theorem isValid_iff_no_error:
  assumes "validate L h = Some (Inr r)"
  shows "isValid r = (\<forall>f \<in> set (errors r). type f \<noteq> Error)
         \<and> isValid r = (length (filter (\<lambda>f. type f = Error) (errors r)) = 0)"
proof -
  from validate_shape [OF assms] obtain E W where
    r: "errors r = E @ W" "isValid r = (E = [])"
    and E: "\<forall>e \<in> set E. type e = Error" and W: "\<forall>w \<in> set W. type w = Warning"
    by blast
  have "filter (\<lambda>f. type f = Error) (E @ W) = E"
    using E W by (auto simp: filter_empty_conv)
  moreover have "(\<forall>f \<in> set (E @ W). type f \<noteq> Error) = (E = [])"
    using E W by (cases E) auto
  ultimately show ?thesis
    by (simp add: r)
qed

text \<open>A bare table has warnings only and is valid; the empty input has an error and is not.\<close>

theorem isValid_iff_no_error_witness:
  \<open>(\<exists>r. validate 125000 ''<table'' = Some (Inr r) \<and> isValid r
        \<and> filter (\<lambda>f. type f = Error) (errors r) = [])
   \<and> (\<exists>r. validate 125000 [] = Some (Inr r) \<and> \<not> isValid r
        \<and> filter (\<lambda>f. type f = Error) (errors r) = [table_layout_error])\<close>
proof -
  have \<open>width_loop ''<table'' [] = Some []\<close>
    by code_simp
  moreover have \<open>validate 0 ''<table'' =
    Some (Inr \<lparr>isValid = True,
      errors = [doctype_warning, document_structure_warning, viewport_warning,
        cellpadding_warning, cellspacing_warning, border_warning],
      warnings = [doctype_warning, document_structure_warning, viewport_warning,
        cellpadding_warning, cellspacing_warning, border_warning], score = 70\<rparr>)\<close>
    by code_simp
  ultimately have v: \<open>validate 125000 ''<table'' =
    Some (Inr \<lparr>isValid = True,
      errors = [doctype_warning, document_structure_warning, viewport_warning,
        cellpadding_warning, cellspacing_warning, border_warning],
      warnings = [doctype_warning, document_structure_warning, viewport_warning,
        cellpadding_warning, cellspacing_warning, border_warning], score = 70\<rparr>)\<close>
    by (rule validate_no_width)
  have "width_loop [] [] = Some []"
    by code_simp
  moreover have "validate 0 [] =
    Some (Inr \<lparr>isValid = False,
      errors = [table_layout_error, doctype_warning, document_structure_warning,
        viewport_warning],
      warnings = [doctype_warning, document_structure_warning, viewport_warning],
      score = 70\<rparr>)"
    by code_simp
  ultimately have v0: "validate 125000 [] =
    Some (Inr \<lparr>isValid = False,
      errors = [table_layout_error, doctype_warning, document_structure_warning,
        viewport_warning],
      warnings = [doctype_warning, document_structure_warning, viewport_warning],
      score = 70\<rparr>)"
    by (rule validate_no_width)
  have t: "type table_layout_error = Error" "type doctype_warning = Warning"
    "type document_structure_warning = Warning" "type viewport_warning = Warning"
    "type cellpadding_warning = Warning" "type cellspacing_warning = Warning"
    "type border_warning = Warning"
    by (simp_all add: error_types structure_warning_defs compatibility_warning_defs)
  from isValid_iff_no_error [OF v] isValid_iff_no_error [OF v0] v v0 t show ?thesis
    by simp
qed

text \<open>
  C3. \<open>validate\<close> is specified to return a result and to throw nothing on every input.
  Both loops terminate on every input, so \<open>validate\<close> always comes back; but it comes
  back with a \<open>RangeError\<close> exactly when the input has more matches of the width pattern
  than the engine accepts arguments in a call, and for every such limit there is such
  an input: one more copy of \<open>width:1 \<close> than the limit.
\<close>

theorem validate_throws_RangeError:
  "validate L (concat (replicate (Suc L) ''width:1 '')) = Some (Inl RangeError)
   \<and> validate L h \<noteq> None
   \<and> (validate L h = Some (Inl e))
       = (e = RangeError \<and> (\<exists>widths. width_loop h [] = Some widths \<and> L < length widths))"
proof (intro conjI)
  have w: "width_loop (concat (replicate (Suc L) ''width:1 '')) []
      = Some (replicate (Suc L) (Finite 1))"
    using width_loop_copies [of "Suc L" "[]"] by simp
  have "maxWidth_of L (replicate (Suc L) (Finite 1)) = Inl RangeError"
    by (simp add: maxWidth_of_def)
  with w show "validate L (concat (replicate (Suc L) ''width:1 '')) = Some (Inl RangeError)"
    by (rule validate_throws)
  obtain widths where ws: "width_loop h [] = Some widths"
    using width_loop_returns [of h "[]"] by auto
  show "validate L h \<noteq> None"
  proof (cases "maxWidth_of L widths")
    case (Inl e')
    with ws have "validate L h = Some (Inl e')"
      by (rule validate_throws)
    then show ?thesis
      by simp
  next
    case (Inr m)
    then have "length widths \<le> L"
      by (simp add: maxWidth_of_def split: if_splits)
    with ws have "\<exists>r. validate L h = Some (Inr r)"
      by (rule validate_returns)
    then show ?thesis
      by auto
  qed
  show "(validate L h = Some (Inl e))
      = (e = RangeError \<and> (\<exists>widths. width_loop h [] = Some widths \<and> L < length widths))"
  proof (cases "L < length widths")
    case True
    then have "maxWidth_of L widths = Inl RangeError"
      by (simp add: maxWidth_of_throws)
    with ws have "validate L h = Some (Inl RangeError)"
      by (rule validate_throws)
    with ws True show ?thesis
      by auto
  next
    case False
    then have "length widths \<le> L"
      by simp
    with ws have "\<exists>r. validate L h = Some (Inr r)"
      by (rule validate_returns)
    with ws False show ?thesis
      by auto
  qed
qed

text \<open>With a limit of two arguments, three widths are too many and two are not.\<close>

theorem validate_throws_RangeError_witness:
  "validate 2 ''width:1 width:1 width:1 '' = Some (Inl RangeError)
   \<and> validate 2 ''width:1 width:1 '' \<noteq> Some (Inl RangeError)"
proof -
  have c: "concat (replicate (Suc 2) ''width:1 '') = ''width:1 width:1 width:1 ''"
    by (simp add: numeral_2_eq_2)
  have w: "width_loop ''width:1 width:1 '' [] = Some [Finite 1, Finite 1]"
    by code_simp
  from validate_throws_RangeError [of 2 "''width:1 width:1 ''" RangeError] w
  show ?thesis
    unfolding c by simp
qed

text \<open>
  C4. For every input, the field \<open>errors\<close> is the findings of type \<open>Error\<close> followed by
  the findings of type \<open>Warning\<close>, and the field \<open>warnings\<close> is exactly the findings of
  \<open>errors\<close> that have type \<open>Warning\<close>.
\<close>

theorem errors_then_warnings:
  assumes "validate L h = Some (Inr r)"
  shows "errors r = filter (\<lambda>f. type f = Error) (errors r)
                    @ filter (\<lambda>f. type f = Warning) (errors r)
         \<and> warnings r = filter (\<lambda>f. type f = Warning) (errors r)
         \<and> list_all (\<lambda>f. type f = Warning) (warnings r)"
proof -
  from validate_shape [OF assms] obtain E W where
    r: "errors r = E @ W" "warnings r = W"
    and E: "\<forall>e \<in> set E. type e = Error" and W: "\<forall>w \<in> set W. type w = Warning"
    by blast
  have "filter (\<lambda>f. type f = Error) (E @ W) = E" "filter (\<lambda>f. type f = Warning) (E @ W) = W"
    using E W by (auto simp: filter_empty_conv)
  with W show ?thesis
    by (simp add: r list_all_iff)
qed

theorem errors_then_warnings_witness:
  \<open>\<exists>r. validate 125000 ''<script>'' = Some (Inr r)
     \<and> errors r = [table_layout_error, javascript_error]
          @ [doctype_warning, document_structure_warning, viewport_warning]
     \<and> warnings r = [doctype_warning, document_structure_warning, viewport_warning]\<close>
proof -
  have \<open>width_loop ''<script>'' [] = Some []\<close>
    by code_simp
  moreover have \<open>validate 0 ''<script>'' =
    Some (Inr \<lparr>isValid = False,
      errors = [table_layout_error, javascript_error, doctype_warning,
        document_structure_warning, viewport_warning],
      warnings = [doctype_warning, document_structure_warning, viewport_warning],
      score = 55\<rparr>)\<close>
    by code_simp
  ultimately have v: \<open>validate 125000 ''<script>'' =
    Some (Inr \<lparr>isValid = False,
      errors = [table_layout_error, javascript_error, doctype_warning,
        document_structure_warning, viewport_warning],
      warnings = [doctype_warning, document_structure_warning, viewport_warning],
      score = 55\<rparr>)\<close>
    by (rule validate_no_width)
  from errors_then_warnings [OF v] v show ?thesis
    by simp
qed

text \<open>
  C5. The width check is specified to cite the exact maximum found. The number of an
  occurrence is the double that \<open>parseInt\<close> reads from its digits, and the message
  prints that double as JavaScript prints numbers: the table below has the digits
  \<open>9007199254740993\<close> (\<open>2 ^ 53 + 1\<close>) as its only width, and the message of its finding
  cites \<open>9007199254740992\<close>.
\<close>

theorem max_width_not_exact:
  \<open>regex_exec width_match_here ''<table width="9007199254740993">''
      = Some (''9007199254740993'', ''>'')
   \<and> width_loop ''<table width="9007199254740993">'' [] = Some [Finite 9007199254740992]
   \<and> (\<exists>r. validate 125000 ''<table width="9007199254740993">'' = Some (Inr r)
        \<and> map message (filter (\<lambda>f. type f = Error
              \<and> prefix ''Maximum width exceeded'' (message f)) (errors r))
          = [''Maximum width exceeded: 9007199254740992px (limit: 600px)''])\<close>
proof (intro conjI)
  let ?h = \<open>''<table width="9007199254740993">''\<close>
  show x: \<open>regex_exec width_match_here ?h = Some (''9007199254740993'', ''>'')\<close>
    by code_simp
  have tw: \<open>takeWhile is_digit ''9007199254740993'' = ''9007199254740993''\<close>
    by code_simp
  have dv: \<open>foldl (\<lambda>a c. 10 * a + digit_val c) 0 ''9007199254740993'' = 9007199254740993\<close>
    by (simp add: digit_val_def)
  have td: "to_double 9007199254740993 = Finite 9007199254740992"
    by (simp add: to_double_def Let_def bit_length.simps)
  have p: \<open>parseInt ''9007199254740993'' = Some (Finite 9007199254740992)\<close>
    unfolding parseInt_def Let_def tw dv td by simp
  have e: \<open>regex_exec width_match_here ''>'' = None\<close>
    by code_simp
  show w: "width_loop ?h [] = Some [Finite 9007199254740992]"
    by (subst width_loop.simps, simp only: x option.case prod.case p,
        subst width_loop.simps, simp only: e option.case push_def append_Nil)
  have m: "maxWidth_of 125000 [Finite 9007199254740992] = Inr (Finite 9007199254740992)"
    by (simp add: maxWidth_of_def)
  have n: \<open>nat_toString 9007199254740992 = ''9007199254740992''\<close>
    by (simp add: nat_toString.simps digit_char_def)
  have "(9007199254740992 :: nat) < 10 ^ Suc 15" "\<not> (9007199254740992 :: nat) < 10 ^ 15"
    by simp_all
  have l: "length (nat_toString 9007199254740992) - 1 = 15"
    by (simp add: nat_toString.simps)
  have sd: "search_decimal 9007199254740992 15 = 9007199254740992"
    by (simp add: search_decimal.simps to_double_def Let_def bit_length.simps)
  have s: "shortest_decimal 9007199254740992 = 9007199254740992"
    unfolding shortest_decimal_def l by (rule sd)
  have ns: \<open>Number_toString (Finite 9007199254740992) = ''9007199254740992''\<close>
    unfolding Number_toString_def number.case Let_def s n by simp
  from w have "length [Finite 9007199254740992] \<le> 125000 \<Longrightarrow>
      \<exists>r. validate 125000 ?h = Some (Inr r)"
    by (rule validate_returns)
  then obtain r where v: "validate 125000 ?h = Some (Inr r)"
    by auto
  from validate_width_error [OF v] obtain widths m' where
    "width_loop ?h [] = Some widths" and "maxWidth_of 125000 widths = Inr m'"
    and f: "filter (\<lambda>f. type f = Error \<and> prefix ''Maximum width exceeded'' (message f))
        (errors r) = (if greater_than m' 600 then [max_width_error m'] else [])"
    by (elim exE conjE) (rule that)
  with w m have "m' = Finite 9007199254740992"
    by simp
  with f have "map message (filter (\<lambda>f. type f = Error
        \<and> prefix ''Maximum width exceeded'' (message f)) (errors r))
      = [''Maximum width exceeded: 9007199254740992px (limit: 600px)'']"
    by (simp add: max_width_error_message ns)
  with v show \<open>\<exists>r. validate 125000 ?h = Some (Inr r)
        \<and> map message (filter (\<lambda>f. type f = Error
              \<and> prefix ''Maximum width exceeded'' (message f)) (errors r))
          = [''Maximum width exceeded: 9007199254740992px (limit: 600px)'']\<close>
    by (intro exI [of _ r] conjI)
qed

text \<open>
  C5, as the code has it. For every input on which \<open>validate\<close> returns a result, the
  loop of the width check collects the number of every occurrence of \<open>width\<close>, \<open>=\<close> or
  \<open>:\<close>, an optional quote, digits, an optional \<open>px\<close> (and of nothing else), the number
  being the double nearest to the value of the digits, which is that value when it is
  below \<open>2 ^ 53\<close>; it takes their maximum, 0 when there is none. When the maximum
  exceeds 600 the result has exactly one finding of type \<open>Error\<close> whose message starts
  with \<open>Maximum width exceeded\<close>: the one of category \<open>Css\<close> that cites the maximum as
  JavaScript prints it, which is its decimal digits when it is below \<open>2 ^ 53\<close>, and
  the limit 600. When the maximum is at most 600 the result has no such finding.
\<close>

theorem max_width_check:
  assumes "validate L h = Some (Inr r)"
  shows "\<exists>widths m. width_loop h [] = Some widths \<and> set widths = width_occurrences h
        \<and> maxWidth_of L widths = Inr m
        \<and> (if width_occurrences h = {} then m = Finite 0
           else m \<in> width_occurrences h \<and> (\<forall>v \<in> width_occurrences h. num_max v m = m))
        \<and> filter (\<lambda>f. type f = Error \<and> prefix ''Maximum width exceeded'' (message f)) (errors r)
            = (if greater_than m 600 then [max_width_error m] else [])
        \<and> type (max_width_error m) = Error
        \<and> category (max_width_error m) = Css
        \<and> message (max_width_error m)
            = ''Maximum width exceeded: '' @ Number_toString m @ ''px (limit: 600px)''
        \<and> (\<forall>n. m = Finite n \<and> n < 2 ^ 53 \<longrightarrow> Number_toString m = nat_toString n)
        \<and> (\<forall>u d rest. width_match_here u = Some (d, rest)
              \<and> foldl (\<lambda>a c. 10 * a + digit_val c) 0 d < 2 ^ 53
            \<longrightarrow> parseInt d = Some (Finite (foldl (\<lambda>a c. 10 * a + digit_val c) 0 d)))"
proof -
  from validate_width_error [OF assms] obtain widths m where
    w: "width_loop h [] = Some widths" and m: "maxWidth_of L widths = Inr m"
    and f: "filter (\<lambda>f. type f = Error \<and> prefix ''Maximum width exceeded'' (message f))
        (errors r) = (if greater_than m 600 then [max_width_error m] else [])"
    by (elim exE conjE) (rule that)
  have o: "set widths = width_occurrences h"
    using width_loop_occurrences [OF w] by simp
  have g: "if width_occurrences h = {} then m = Finite 0
      else m \<in> width_occurrences h \<and> (\<forall>v \<in> width_occurrences h. num_max v m = m)"
    using maxWidth_of_greatest [OF m] unfolding o .
  have t: "type (max_width_error m) = Error" "category (max_width_error m) = Css"
    by (simp_all add: max_width_error_def)
  have x: "\<forall>n. m = Finite n \<and> n < 2 ^ 53 \<longrightarrow> Number_toString m = nat_toString n"
    by (simp add: Number_toString_exact)
  have p: "\<forall>u d rest. width_match_here u = Some (d, rest)
        \<and> foldl (\<lambda>a c. 10 * a + digit_val c) 0 d < 2 ^ 53
      \<longrightarrow> parseInt d = Some (Finite (foldl (\<lambda>a c. 10 * a + digit_val c) 0 d))"
    by (intro allI impI, elim conjE) (rule width_match_here_exact)
  show ?thesis
    by (intro exI [of _ widths] exI [of _ m] conjI w o m g f t max_width_error_message x p)
qed

text \<open>
  The table of the second scenario of the specification, with a cell 601 wide, and a
  cell with the widths 600 and 300.
\<close>

theorem max_width_check_witness:
  \<open>(\<exists>r. validate 125000 ''<table><tr><td style="width:601px">x</td></tr></table>'' = Some (Inr r)
      \<and> width_occurrences ''<table><tr><td style="width:601px">x</td></tr></table>''
          = {Finite 601}
      \<and> filter (\<lambda>f. type f = Error \<and> prefix ''Maximum width exceeded'' (message f)) (errors r)
           = [max_width_error (Finite 601)]
      \<and> message (max_width_error (Finite 601))
           = ''Maximum width exceeded: 601px (limit: 600px)'')
   \<and> (\<exists>r. validate 125000 ''<td width="600" style="max-width: 300px">'' = Some (Inr r)
      \<and> width_occurrences ''<td width="600" style="max-width: 300px">''
          = {Finite 600, Finite 300}
      \<and> filter (\<lambda>f. type f = Error \<and> prefix ''Maximum width exceeded'' (message f)) (errors r)
           = [])\<close>
proof (rule conjI)
  let ?h = \<open>''<table><tr><td style="width:601px">x</td></tr></table>''\<close>
  note wl = wide_table(1)
  from wl have "length [Finite 601] \<le> 125000 \<Longrightarrow> \<exists>r. validate 125000 ?h = Some (Inr r)"
    by (rule validate_returns)
  then obtain r where v: "validate 125000 ?h = Some (Inr r)"
    by auto
  have n: "nat_toString 601 = ''601''"
    by code_simp
  from max_width_check [OF v] obtain widths m where "width_loop ?h [] = Some widths"
    and o: "set widths = width_occurrences ?h"
    and mw: "maxWidth_of 125000 widths = Inr m"
    and f: "filter (\<lambda>f. type f = Error \<and> prefix ''Maximum width exceeded'' (message f)) (errors r)
            = (if greater_than m 600 then [max_width_error m] else [])"
    and m: "message (max_width_error m)
            = ''Maximum width exceeded: '' @ Number_toString m @ ''px (limit: 600px)''"
    and x: "\<forall>n. m = Finite n \<and> n < 2 ^ 53 \<longrightarrow> Number_toString m = nat_toString n"
    by (elim exE conjE) (rule that)
  with wl have ws: "widths = [Finite 601]"
    by simp
  from mw have me: "m = Finite 601"
    unfolding ws by (simp add: maxWidth_of_def)
  from x have "Number_toString (Finite 601) = nat_toString 601"
    unfolding me by simp
  then have ns: "Number_toString (Finite 601) = ''601''"
    by (simp only: n)
  from o f m have "width_occurrences ?h = {Finite 601}"
    and "filter (\<lambda>f. type f = Error \<and> prefix ''Maximum width exceeded'' (message f)) (errors r)
           = [max_width_error (Finite 601)]"
    and "message (max_width_error (Finite 601)) = ''Maximum width exceeded: 601px (limit: 600px)''"
    unfolding ws me ns by simp_all
  with v show \<open>\<exists>r. validate 125000 ?h = Some (Inr r)
      \<and> width_occurrences ?h = {Finite 601}
      \<and> filter (\<lambda>f. type f = Error \<and> prefix ''Maximum width exceeded'' (message f)) (errors r)
           = [max_width_error (Finite 601)]
      \<and> message (max_width_error (Finite 601))
           = ''Maximum width exceeded: 601px (limit: 600px)''\<close>
    by (intro exI [of _ r] conjI)
next
  let ?h = \<open>''<td width="600" style="max-width: 300px">''\<close>
  have wl: "width_loop ?h [] = Some [Finite 600, Finite 300]"
    by code_simp
  from wl have "length [Finite 600, Finite 300] \<le> 125000 \<Longrightarrow>
      \<exists>r. validate 125000 ?h = Some (Inr r)"
    by (rule validate_returns)
  then obtain r where v: "validate 125000 ?h = Some (Inr r)"
    by auto
  from max_width_check [OF v] obtain widths m where "width_loop ?h [] = Some widths"
    and o: "set widths = width_occurrences ?h"
    and mw: "maxWidth_of 125000 widths = Inr m"
    and f: "filter (\<lambda>f. type f = Error \<and> prefix ''Maximum width exceeded'' (message f)) (errors r)
            = (if greater_than m 600 then [max_width_error m] else [])"
    by (elim exE conjE) (rule that)
  with wl have ws: "widths = [Finite 600, Finite 300]"
    by simp
  from mw have me: "m = Finite 600"
    unfolding ws by (simp add: maxWidth_of_def)
  from o f have "width_occurrences ?h = {Finite 600, Finite 300}"
    and "filter (\<lambda>f. type f = Error \<and> prefix ''Maximum width exceeded'' (message f)) (errors r)
           = []"
    unfolding ws me by simp_all
  with v show \<open>\<exists>r. validate 125000 ?h = Some (Inr r)
      \<and> width_occurrences ?h = {Finite 600, Finite 300}
      \<and> filter (\<lambda>f. type f = Error \<and> prefix ''Maximum width exceeded'' (message f)) (errors r)
           = []\<close>
    by (intro exI [of _ r] conjI)
qed

text \<open>
  C6. For every input that contains \<open><script\<close> or \<open>javascript:\<close>, whatever stands
  before and after it, the result contains the finding of type \<open>Error\<close> and category
  \<open>Structure\<close> whose message says that JavaScript is not supported in email clients,
  and \<open>isValid\<close> is false.
\<close>

theorem javascript_flagged:
  assumes "validate L h = Some (Inr r)"
    and "h = a @ ''<script'' @ b \<or> h = a @ ''javascript:'' @ b"
  shows "javascript_error \<in> set (errors r) \<and> \<not> isValid r
         \<and> type javascript_error = Error \<and> category javascript_error = Structure
         \<and> message javascript_error = ''JavaScript is not supported in email clients''"
proof -
  from validate_error_findings [OF assms(1)] obtain widths m where
    e: "filter (\<lambda>f. type f = Error) (errors r) = error_findings h m"
    and iv: "isValid r = (filter (\<lambda>f. type f = Error) (errors r) = [])"
    by (elim exE conjE) (rule that)
  from assms(2) have "sublist ''<script'' h \<or> sublist ''javascript:'' h"
  proof
    assume "h = a @ ''<script'' @ b"
    then have "sublist ''<script'' h"
      by (simp only: sublist_appendI)
    then show ?thesis ..
  next
    assume "h = a @ ''javascript:'' @ b"
    then have "sublist ''javascript:'' h"
      by (simp only: sublist_appendI)
    then show ?thesis ..
  qed
  then have js: "str_includes h ''<script'' \<or> str_includes h ''javascript:''"
    by (simp only: str_includes_def)
  have mf: "javascript_error \<in> set (filter (\<lambda>f. type f = Error) (errors r))"
    unfolding e error_findings_def using js by simp
  then have m: "javascript_error \<in> set (errors r)"
    by simp
  from mf have "filter (\<lambda>f. type f = Error) (errors r) \<noteq> []"
    by (cases "filter (\<lambda>f. type f = Error) (errors r)") simp_all
  then have "\<not> isValid r"
    by (simp only: iv not_False_eq_True)
  with m show ?thesis
    by (simp add: javascript_error_def)
qed

text \<open>The third scenario of the specification, and a \<open>javascript:\<close> link inside a table.\<close>

theorem javascript_flagged_witness:
  \<open>(\<exists>r. validate 125000 ''<script>alert(1)</script>'' = Some (Inr r)
        \<and> javascript_error \<in> set (errors r) \<and> \<not> isValid r)
   \<and> (\<exists>r. validate 125000 ''<table><a href="javascript:go()">x</a></table>'' = Some (Inr r)
        \<and> javascript_error \<in> set (errors r) \<and> \<not> isValid r)\<close>
proof (rule conjI)
  have \<open>width_loop ''<script>alert(1)</script>'' [] = Some []\<close>
    by code_simp
  then have \<open>length ([] :: number list) \<le> 125000 \<Longrightarrow>
      \<exists>r. validate 125000 ''<script>alert(1)</script>'' = Some (Inr r)\<close>
    by (rule validate_returns)
  then obtain r1 where v1: \<open>validate 125000 ''<script>alert(1)</script>'' = Some (Inr r1)\<close>
    by auto
  have \<open>''<script>alert(1)</script>'' = [] @ ''<script'' @ ''>alert(1)</script>''
      \<or> ''<script>alert(1)</script>'' = [] @ ''javascript:'' @ ''>alert(1)</script>''\<close>
    by simp
  from javascript_flagged [OF v1 this]
  have "javascript_error \<in> set (errors r1)" and "\<not> isValid r1"
    by (rule conjunct1, rule conjunct2 [THEN conjunct1])
  with v1 show \<open>\<exists>r. validate 125000 ''<script>alert(1)</script>'' = Some (Inr r)
        \<and> javascript_error \<in> set (errors r) \<and> \<not> isValid r\<close>
    by (intro exI [of _ r1] conjI)
next
  have \<open>width_loop ''<table><a href="javascript:go()">x</a></table>'' [] = Some []\<close>
    by code_simp
  then have \<open>length ([] :: number list) \<le> 125000 \<Longrightarrow>
      \<exists>r. validate 125000 ''<table><a href="javascript:go()">x</a></table>'' = Some (Inr r)\<close>
    by (rule validate_returns)
  then obtain r2 where
    v2: \<open>validate 125000 ''<table><a href="javascript:go()">x</a></table>'' = Some (Inr r2)\<close>
    by auto
  have \<open>''<table><a href="javascript:go()">x</a></table>''
        = ''<table><a href="'' @ ''<script'' @ ''go()">x</a></table>''
      \<or> ''<table><a href="javascript:go()">x</a></table>''
        = ''<table><a href="'' @ ''javascript:'' @ ''go()">x</a></table>''\<close>
    by simp
  from javascript_flagged [OF v2 this]
  have "javascript_error \<in> set (errors r2)" and "\<not> isValid r2"
    by (rule conjunct1, rule conjunct2 [THEN conjunct1])
  with v2 show \<open>\<exists>r. validate 125000 ''<table><a href="javascript:go()">x</a></table>'' = Some (Inr r)
        \<and> javascript_error \<in> set (errors r) \<and> \<not> isValid r\<close>
    by (intro exI [of _ r2] conjI)
qed

text \<open>
  C7. Every \<open><style\<close> opening tag, bare or with attributes, is specified to give the
  finding of type \<open>Error\<close> and category \<open>Css\<close> about style tags. The check looks for
  the text \<open><style>\<close> only: a table with \<open><style type="text/css">\<close> has no such finding
  and is valid, while the same table with the bare tag has it and is not valid.
\<close>

theorem style_tag_with_attributes_not_flagged:
  \<open>(\<exists>r. validate L ''<table><style type="text/css">td{font-size:12px}</style></table>'' = Some (Inr r)
        \<and> isValid r \<and> style_tag_error \<notin> set (errors r)
        \<and> filter (\<lambda>f. type f = Error) (errors r) = [])
   \<and> (\<exists>r. validate L ''<table><style>td{font-size:12px}</style></table>'' = Some (Inr r)
        \<and> \<not> isValid r \<and> filter (\<lambda>f. type f = Error) (errors r) = [style_tag_error])\<close>
proof (rule conjI)
  let ?W = "[doctype_warning, document_structure_warning, viewport_warning,
    cellpadding_warning, cellspacing_warning, border_warning]"
  have t: "type style_tag_error = Error" "type doctype_warning = Warning"
    "type document_structure_warning = Warning" "type viewport_warning = Warning"
    "type cellpadding_warning = Warning" "type cellspacing_warning = Warning"
    "type border_warning = Warning"
    by (simp_all add: error_types structure_warning_defs compatibility_warning_defs)
  have \<open>width_loop ''<table><style type="text/css">td{font-size:12px}</style></table>'' []
      = Some []\<close>
    by code_simp
  moreover
  have \<open>validate 0 ''<table><style type="text/css">td{font-size:12px}</style></table>'' =
      Some (Inr \<lparr>isValid = True, errors = ?W, warnings = ?W, score = 70\<rparr>)\<close>
    by code_simp
  ultimately
  have v: \<open>validate L ''<table><style type="text/css">td{font-size:12px}</style></table>'' =
      Some (Inr \<lparr>isValid = True, errors = ?W, warnings = ?W, score = 70\<rparr>)\<close>
    by (rule validate_no_width)
  have "style_tag_error \<notin> set ?W"
    using t by auto
  with v t
  show \<open>\<exists>r. validate L ''<table><style type="text/css">td{font-size:12px}</style></table>''
          = Some (Inr r)
        \<and> isValid r \<and> style_tag_error \<notin> set (errors r)
        \<and> filter (\<lambda>f. type f = Error) (errors r) = []\<close>
    by simp
  have \<open>width_loop ''<table><style>td{font-size:12px}</style></table>'' [] = Some []\<close>
    by code_simp
  moreover
  have \<open>validate 0 ''<table><style>td{font-size:12px}</style></table>'' =
      Some (Inr \<lparr>isValid = False, errors = style_tag_error # ?W, warnings = ?W,
        score = 55\<rparr>)\<close>
    by code_simp
  ultimately
  have v': \<open>validate L ''<table><style>td{font-size:12px}</style></table>'' =
      Some (Inr \<lparr>isValid = False, errors = style_tag_error # ?W, warnings = ?W,
        score = 55\<rparr>)\<close>
    by (rule validate_no_width)
  with t
  show \<open>\<exists>r. validate L ''<table><style>td{font-size:12px}</style></table>'' = Some (Inr r)
        \<and> \<not> isValid r \<and> filter (\<lambda>f. type f = Error) (errors r) = [style_tag_error]\<close>
    by simp
qed



text \<open>
  C9. For every result, \<open>getValidationSummary\<close> returns one of three summaries: the
  perfect one when the result has no finding of type \<open>Error\<close> and no warning, the one
  about minor issues when it has no finding of type \<open>Error\<close> but a warning, and the one
  about errors and warnings found when it has a finding of type \<open>Error\<close>. Each is one
  line and contains the score followed by \<open>/100\<close>.
\<close>

theorem summary_variants:
  fixes r :: ValidationResult
  defines "e \<equiv> length (filter (\<lambda>f. type f = Error) (errors r))"
    and "w \<equiv> length (warnings r)"
  shows "(e = 0 \<and> w = 0 \<longrightarrow> getValidationSummary r =
            check_mark @ '' Perfect! Your email template is fully compatible (Score: ''
              @ int_toString (score r) @ ''/100)'')
       \<and> (e = 0 \<and> w \<noteq> 0 \<longrightarrow> getValidationSummary r =
            warning_sign @ '' Good compatibility with '' @ nat_toString w @ '' minor issue''
              @ (if w = 1 then [] else ''s'')
              @ '' (Score: '' @ int_toString (score r) @ ''/100)'')
       \<and> (e \<noteq> 0 \<longrightarrow> getValidationSummary r =
            cross_mark @ '' '' @ nat_toString e @ '' error'' @ (if e = 1 then [] else ''s'')
              @ '' and '' @ nat_toString w @ '' warning'' @ (if w = 1 then [] else ''s'')
              @ '' found (Score: '' @ int_toString (score r) @ ''/100)'')
       \<and> str_includes (getValidationSummary r) (int_toString (score r) @ ''/100'')
       \<and> CHR 0x0A \<notin> set (getValidationSummary r)"
proof (intro conjI impI)
  assume "e = 0 \<and> w = 0"
  then show "getValidationSummary r =
      check_mark @ '' Perfect! Your email template is fully compatible (Score: ''
        @ int_toString (score r) @ ''/100)''"
    unfolding e_def w_def by (simp add: getValidationSummary_def)
next
  assume "e = 0 \<and> w \<noteq> 0"
  then show "getValidationSummary r =
      warning_sign @ '' Good compatibility with '' @ nat_toString w @ '' minor issue''
        @ (if w = 1 then [] else ''s'')
        @ '' (Score: '' @ int_toString (score r) @ ''/100)''"
    unfolding e_def w_def by (simp add: getValidationSummary_def plural_def)
next
  assume "e \<noteq> 0"
  then show "getValidationSummary r =
      cross_mark @ '' '' @ nat_toString e @ '' error'' @ (if e = 1 then [] else ''s'')
        @ '' and '' @ nat_toString w @ '' warning'' @ (if w = 1 then [] else ''s'')
        @ '' found (Score: '' @ int_toString (score r) @ ''/100)''"
    unfolding e_def w_def by (simp add: getValidationSummary_def plural_def)
next
  have "\<exists>ps. getValidationSummary r = ps @ (int_toString (score r) @ ''/100'') @ '')''"
    by (simp add: getValidationSummary_def Let_def)
  then show "str_includes (getValidationSummary r) (int_toString (score r) @ ''/100'')"
    unfolding str_includes_def sublist_def by blast
next
  show "CHR 0x0A \<notin> set (getValidationSummary r)"
    using int_toString_one_line [of "score r"] nat_toString_one_line
    by (simp add: getValidationSummary_def Let_def plural_def check_mark_def warning_sign_def
        cross_mark_def)
qed

text \<open>
  The sixth scenario of the specification: a result without findings and the result of
  the empty input.
\<close>

theorem summary_variants_witness:
  "getValidationSummary \<lparr>isValid = True, errors = [], warnings = [], score = 100\<rparr> =
     check_mark @ '' Perfect! Your email template is fully compatible (Score: 100/100)''
   \<and> getValidationSummary \<lparr>isValid = False,
        errors = [table_layout_error, doctype_warning, document_structure_warning,
          viewport_warning],
        warnings = [doctype_warning, document_structure_warning, viewport_warning],
        score = 70\<rparr> =
     cross_mark @ '' 1 error and 3 warnings found (Score: 70/100)''"
proof -
  have n: "int_toString 100 = ''100''" "int_toString 70 = ''70''" "nat_toString (Suc 0) = ''1''"
    "nat_toString (Suc (Suc (Suc 0))) = ''3''"
    by code_simp+
  have t: "type table_layout_error = Error" "type doctype_warning = Warning"
    "type document_structure_warning = Warning" "type viewport_warning = Warning"
    by (simp_all add: error_types structure_warning_defs)
  from summary_variants [of "\<lparr>isValid = True, errors = [], warnings = [], score = 100\<rparr>"]
    summary_variants [of "\<lparr>isValid = False,
        errors = [table_layout_error, doctype_warning, document_structure_warning,
          viewport_warning],
        warnings = [doctype_warning, document_structure_warning, viewport_warning],
        score = 70\<rparr>"]
  show ?thesis
    by (simp add: n t)
qed

text \<open>
  C10. For every input, the finding of type \<open>Error\<close> and category \<open>Css\<close> about external
  stylesheets is pushed (once) exactly when the input contains \<open><link\<close> somewhere and
  \<open>stylesheet\<close> somewhere; the two need not stand in the same tag. When it is pushed
  \<open>isValid\<close> is false, and a link that does not spell \<open>stylesheet\<close> in lower case is
  not flagged.
\<close>

theorem external_stylesheet_iff:
  assumes "validate L h = Some (Inr r)"
  shows "count_list (errors r) external_stylesheet_error =
           (if str_includes h ''<link'' \<and> str_includes h ''stylesheet'' then 1 else 0)
         \<and> (if str_includes h ''<link'' \<and> str_includes h ''stylesheet''
             then \<not> isValid r else external_stylesheet_error \<notin> set (errors r))
         \<and> type external_stylesheet_error = Error \<and> category external_stylesheet_error = Css
         \<and> message external_stylesheet_error
             = ''External stylesheets are blocked by most email clients''"
proof -
  from validate_error_findings [OF assms] obtain widths m where
    e: "filter (\<lambda>f. type f = Error) (errors r) = error_findings h m"
    and iv: "isValid r = (filter (\<lambda>f. type f = Error) (errors r) = [])"
    by (elim exE conjE) (rule that)
  let ?c = "str_includes h ''<link'' \<and> str_includes h ''stylesheet''"
  have "count_list (errors r) external_stylesheet_error
      = count_list (filter (\<lambda>f. type f = Error) (errors r)) external_stylesheet_error"
    by (rule count_list_filter [symmetric]) (simp add: error_types)
  also have "\<dots> = (if ?c then 1 else 0)"
    unfolding e error_findings_def
    by (simp add: error_findings_distinct)
  finally have c: "count_list (errors r) external_stylesheet_error = (if ?c then 1 else 0)" .
  have v: "\<not> isValid r" if ?c
  proof -
    from that c have "count_list (errors r) external_stylesheet_error \<noteq> 0"
      by simp
    then have "external_stylesheet_error \<in> set (errors r)"
      by (simp add: count_list_0_iff)
    then have "external_stylesheet_error \<in> set (filter (\<lambda>f. type f = Error) (errors r))"
      by (simp add: error_types)
    then have "filter (\<lambda>f. type f = Error) (errors r) \<noteq> []"
      by (cases "filter (\<lambda>f. type f = Error) (errors r)") simp_all
    then show ?thesis
      by (simp only: iv not_False_eq_True)
  qed
  have n: "external_stylesheet_error \<notin> set (errors r)" if "\<not> ?c"
    using c that by (simp add: count_list_0_iff)
  show ?thesis
  proof (cases ?c)
    case True
    with c v show ?thesis
      by (simp add: external_stylesheet_error_def)
  next
    case False
    with c n show ?thesis
      by (simp add: external_stylesheet_error_def)
  qed
qed

text \<open>
  An icon link next to the word in prose is flagged; a link that spells the relation in
  capitals is not.
\<close>

theorem external_stylesheet_iff_witness:
  \<open>(\<exists>r. validate 125000 ''<link rel="icon"> my stylesheet'' = Some (Inr r)
        \<and> count_list (errors r) external_stylesheet_error = 1 \<and> \<not> isValid r)
   \<and> (\<exists>r. validate 125000 ''<link rel="STYLESHEET" href="a.css">'' = Some (Inr r)
        \<and> external_stylesheet_error \<notin> set (errors r))\<close>
proof (rule conjI)
  have \<open>width_loop ''<link rel="icon"> my stylesheet'' [] = Some []\<close>
    by code_simp
  then have \<open>length ([] :: number list) \<le> 125000 \<Longrightarrow>
      \<exists>r. validate 125000 ''<link rel="icon"> my stylesheet'' = Some (Inr r)\<close>
    by (rule validate_returns)
  then obtain r1 where v1: \<open>validate 125000 ''<link rel="icon"> my stylesheet'' = Some (Inr r1)\<close>
    by auto
  have i1: \<open>str_includes ''<link rel="icon"> my stylesheet'' ''<link''
      \<and> str_includes ''<link rel="icon"> my stylesheet'' ''stylesheet''\<close>
    by code_simp
  from external_stylesheet_iff [OF v1]
  have "count_list (errors r1) external_stylesheet_error = 1" and "\<not> isValid r1"
    unfolding if_P [OF i1] by (rule conjunct1, rule conjunct2 [THEN conjunct1])
  with v1 show \<open>\<exists>r. validate 125000 ''<link rel="icon"> my stylesheet'' = Some (Inr r)
        \<and> count_list (errors r) external_stylesheet_error = 1 \<and> \<not> isValid r\<close>
    by (intro exI [of _ r1] conjI)
next
  have \<open>width_loop ''<link rel="STYLESHEET" href="a.css">'' [] = Some []\<close>
    by code_simp
  then have \<open>length ([] :: number list) \<le> 125000 \<Longrightarrow>
      \<exists>r. validate 125000 ''<link rel="STYLESHEET" href="a.css">'' = Some (Inr r)\<close>
    by (rule validate_returns)
  then obtain r2 where v2: \<open>validate 125000 ''<link rel="STYLESHEET" href="a.css">'' = Some (Inr r2)\<close>
    by auto
  have i2: \<open>\<not> (str_includes ''<link rel="STYLESHEET" href="a.css">'' ''<link''
      \<and> str_includes ''<link rel="STYLESHEET" href="a.css">'' ''stylesheet'')\<close>
    by code_simp
  from external_stylesheet_iff [OF v2]
  have "external_stylesheet_error \<notin> set (errors r2)"
    unfolding if_not_P [OF i2] by (rule conjunct2 [THEN conjunct1])
  with v2 show \<open>\<exists>r. validate 125000 ''<link rel="STYLESHEET" href="a.css">'' = Some (Inr r)
        \<and> external_stylesheet_error \<notin> set (errors r)\<close>
    by (intro exI [of _ r2] conjI)
qed

end
